theory Spec2Isabelle
  imports Main "HOL-Library.Word" "HOL-Library.Product_Lexorder" "HOL-Library.Multiset"
begin

section \<open>The sector termination batcher (storage-sealing/terminate\_batch.go)\<close>

subsection \<open>Basic types\<close>

text \<open>
  Deadline and partition indices are Go \<open>uint64\<close> values on which the code does
  arithmetic (\<open>+ 1\<close>, \<open>%\<close>), so they are 64-bit words. Sector numbers and actor ids are
  \<open>uint64\<close> values that are only stored and compared; they are natural numbers here.
  The counters \<open>total\<close> and \<open>n\<close> of \<open>processBatch\<close> count the set bits of bitfields
  that were built one bit at a time, so they are natural numbers as well; the only
  subtraction on them, \<open>AddressedSectorsMax - total\<close>, is exact because the loop keeps
  \<open>total \<le> AddressedSectorsMax\<close> (lemma \<open>selectLoop_bits\<close>).
\<close>

type_synonym uint64 = "64 word"
type_synonym SectorNumber = nat
type_synonym ActorID = nat

text \<open>
  A Go \<open>error\<close> value: either an error produced by a collaborator or by \<open>xerrors.New\<close>
  (\<open>Err\<close>), or \<open>xerrors.Errorf("msg: %w", err)\<close> wrapping a cause (\<open>Errorf\<close>).
\<close>

datatype error = Err string | Errorf string error

text \<open>The two run-time panics the code can raise.\<close>

datatype panic = IndexOutOfRange | DivideByZero

subsection \<open>Addresses (go-address)\<close>

text \<open>
  Of the address library the batcher uses two functions: \<open>NewIDAddress\<close>, which refuses
  ids above \<open>math.MaxInt64\<close>, and \<open>IDFromAddress\<close>, which refuses an address that is not
  an ID address.
\<close>

datatype address = IDAddress nat | OtherAddress string

definition NewIDAddress :: "nat \<Rightarrow> error + address" where
  "NewIDAddress i =
     (if i > 2 ^ 63 - 1 then Inl (Err ''IDs must be less than 2^63'') else Inr (IDAddress i))"

definition IDFromAddress :: "address \<Rightarrow> error + nat" where
  "IDFromAddress a =
     (case a of IDAddress i \<Rightarrow> Inr i
      | OtherAddress _ \<Rightarrow> Inl (Err ''cannot get id from non id address''))"

subsection \<open>Bitfields (go-bitfield)\<close>

text \<open>
  Modelled from the spec: go-bitfield is a library outside the repository; the
  specification lists what the batcher uses of it (count bits, copy, set bit, test bit,
  iterate set bits, intersect, subtract, slice first-k-bits). A bitfield is modelled by
  its decoded content: the list of its set bits, which the library's iterators yield in
  ascending order (\<open>valid_bf\<close>). The operations have the library's result types, so that
  every \<open>if err != nil\<close> of the batcher is a branch of the model; on a decoded bitfield
  the only operation that fails is \<open>Slice\<close>, when fewer than \<open>cnt\<close> set bits remain
  after skipping \<open>start\<close> of them. \<open>ForEach\<close> gives the bits on which the callback
  is run, in turn. Every bitfield the batcher holds is valid (lemma
  \<open>reachable_todo_valid\<close>), and on valid bitfields the operations are those of sets
  (lemmas \<open>IntersectBitField_valid\<close>, \<open>SubtractBitField_valid\<close>, \<open>Slice_valid\<close>).
\<close>

type_synonym BitField = "nat list"

definition valid_bf :: "BitField \<Rightarrow> bool" where
  "valid_bf bf = (sorted bf \<and> distinct bf)"

definition bitfield_New :: BitField where
  "bitfield_New = []"

definition Count :: "BitField \<Rightarrow> error + nat" where
  "Count bf = Inr (length bf)"

definition Copy :: "BitField \<Rightarrow> error + BitField" where
  "Copy bf = Inr bf"

definition IsSet :: "BitField \<Rightarrow> nat \<Rightarrow> error + bool" where
  "IsSet bf i = Inr (i \<in> set bf)"

definition SetBit :: "BitField \<Rightarrow> nat \<Rightarrow> BitField" where
  "SetBit bf i = (if i \<in> set bf then bf else insort i bf)"

definition ForEach :: "BitField \<Rightarrow> error + nat list" where
  "ForEach bf = Inr bf"

definition IntersectBitField :: "BitField \<Rightarrow> BitField \<Rightarrow> error + BitField" where
  "IntersectBitField a b = Inr (filter (\<lambda>i. i \<in> set a) b)"

definition SubtractBitField :: "BitField \<Rightarrow> BitField \<Rightarrow> error + BitField" where
  "SubtractBitField a b = Inr (filter (\<lambda>i. i \<notin> set b) a)"

definition Slice :: "BitField \<Rightarrow> nat \<Rightarrow> nat \<Rightarrow> error + BitField" where
  "Slice bf start cnt =
     (if length (drop start bf) < cnt
      then Inl (Err ''not enough bits set in field to satisfy slice count'')
      else Inr (take cnt (drop start bf)))"

subsection \<open>Records of the batcher and of its collaborators\<close>

text \<open>
  Modelled from the spec: the struct \<open>SectorLocation\<close> is declared in a file of the
  package that is not at hand; it is the pair of a deadline index and a partition index,
  the key of \<open>todo\<close>, and the code uses both fields as \<open>uint64\<close>.
\<close>

record SectorLocation =
  Deadline :: uint64
  Partition :: uint64

record SectorID =
  Miner :: ActorID
  Number :: SectorNumber

text \<open>
  \<open>miner2.TerminationDeclaration\<close> has the two fields of a sector location and the
  bitfield of the sectors to terminate.
\<close>

record TerminationDeclaration = SectorLocation +
  Sectors :: BitField

record TerminateSectorsParams =
  Terminations :: "TerminationDeclaration list"

record apitypes_Partition =
  LiveSectors :: BitField

record dline_Info =
  Index :: uint64

record MinerInfo =
  Owner :: address
  Worker :: address

text \<open>
  The answers of the collaborators during one invocation: the five methods of
  \<open>TerminateBatcherApi\<close> (the context and tipset-token arguments are left out, and of
  \<open>MessagerSendMsg\<close> the arguments that vary: from, to and the encoded parameters), the
  sender-address selector \<open>addrSel\<close> of the batcher, and the CBOR encoder of the
  parameters.
\<close>

record TerminateBatcherApi =
  StateSectorPartition :: "address \<Rightarrow> SectorNumber \<Rightarrow> error + SectorLocation option"
  MessagerSendMsg :: "address \<Rightarrow> address \<Rightarrow> nat list \<Rightarrow> error + string"
  StateMinerInfo :: "address \<Rightarrow> error + MinerInfo"
  StateMinerProvingDeadline :: "address \<Rightarrow> error + dline_Info"
  StateMinerPartitions :: "address \<Rightarrow> uint64 \<Rightarrow> error + apitypes_Partition list"

record Collaborators = TerminateBatcherApi +
  addrSel :: "MinerInfo \<Rightarrow> error + address"
  MarshalCBOR :: "TerminateSectorsParams \<Rightarrow> error + nat list"

text \<open>
  The constants the batcher reads: the three protocol constants of package \<open>miner\<close>
  (declared outside this repository, hence parameters) and the two package variables
  \<open>TerminateBatchMax\<close> and \<open>TerminateBatchMin\<close>.
\<close>

record Config =
  WPoStPeriodDeadlines :: uint64
  AddressedSectorsMax :: nat
  DeclarationsMax :: nat
  TerminateBatchMax :: nat
  TerminateBatchMin :: nat

definition defaultBatchConfig :: "uint64 \<Rightarrow> nat \<Rightarrow> nat \<Rightarrow> Config" where
  "defaultBatchConfig P amax dmax =
     \<lparr>WPoStPeriodDeadlines = P, AddressedSectorsMax = amax, DeclarationsMax = dmax,
      TerminateBatchMax = 100, TerminateBatchMin = 1\<rparr>"

text \<open>
  The batcher. \<open>todo\<close> and \<open>waiting\<close> are the two maps of the struct. A waiter channel
  is an object on the heap: \<open>waiting\<close> holds channel identifiers, \<open>chans\<close> is the store
  that gives for every channel the message ids sent to it so far, and \<open>nchan\<close> is the
  next identifier \<open>make(chan string, 1)\<close> returns. A send \<open>ch <- mcid\<close> appends to the
  history of the channel; what the receivers take out is not modelled. \<open>sent\<close> is the
  log of the calls of \<open>MessagerSendMsg\<close>: the sender and the parameters whose encoding
  was passed. The fields \<open>api\<close>, \<open>addrSel\<close> and \<open>feeCfg\<close> of the struct never change;
  the collaborators are an argument of every operation, since their answers change with
  the chain. The control channels \<open>notify\<close>, \<open>force\<close>, \<open>stop\<close> and \<open>stopped\<close> and
  the mutex are not part of the model: every operation below is one critical section.
\<close>

type_synonym chan = nat

record TerminateBatcher =
  maddr :: address
  todo :: "SectorLocation \<rightharpoonup> BitField"
  waiting :: "SectorNumber \<rightharpoonup> chan list"
  chans :: "chan \<Rightarrow> string list"
  nchan :: nat
  sent :: "(address \<times> TerminateSectorsParams) list"

definition NewTerminationBatcher :: "address \<Rightarrow> TerminateBatcher" where
  "NewTerminationBatcher a =
     \<lparr>maddr = a, todo = Map.empty, waiting = Map.empty, chans = (\<lambda>_. []), nchan = 0, sent = []\<rparr>"

subsection \<open>The deadline filter of processBatch (lines 131-136)\<close>

definition inNextDeadline :: "uint64 \<Rightarrow> uint64 \<Rightarrow> uint64 \<Rightarrow> bool" where
  "inNextDeadline P locDeadline dlIndex = (locDeadline = (dlIndex + 1) mod P)"

definition inPreviousDeadline :: "uint64 \<Rightarrow> uint64 \<Rightarrow> uint64 \<Rightarrow> bool" where
  "inPreviousDeadline P locDeadline dlIndex = ((locDeadline + 1) mod P = dlIndex)"

definition challenged :: "uint64 \<Rightarrow> SectorLocation \<Rightarrow> dline_Info \<Rightarrow> bool" where
  "challenged P loc dl =
     (inNextDeadline P (Deadline loc) (Index dl) \<or> Deadline loc = Index dl
      \<or> inPreviousDeadline P (Deadline loc) (Index dl))"

text \<open>
  The other form of the previous-deadline test, as the specification writes it, over the
  natural numbers: \<open>loc.Deadline == (dl.Index + P - 1) % P\<close>.
\<close>

definition previousDeadline_spec :: "nat \<Rightarrow> nat \<Rightarrow> nat \<Rightarrow> bool" where
  "previousDeadline_spec P locDeadline dlIndex = (locDeadline = (dlIndex + P - 1) mod P)"

subsection \<open>processBatch: the selection loop (lines 123-193)\<close>

text \<open>
  One iteration of \<open>for loc, sectors := range b.todo\<close>, up to the point where the
  declaration is appended. \<open>Continue\<close> is every \<open>continue\<close> of the body;
  \<open>Selected s n toTerminate\<close> gives the bitfield the entry of \<open>todo\<close> holds afterwards
  (\<open>*sectors\<close>, changed by the cap enforcement only), the amount added to \<open>total\<close> and
  the bitfield of the declaration. \<open>ps[loc.Partition]\<close> is an unchecked index and
  panics out of range; the remainder by the constant \<open>WPoStPeriodDeadlines\<close> would
  panic were the constant zero.
\<close>

datatype iteration = Continue | Selected BitField nat BitField | Panicked panic

definition selectLocation ::
  "Config \<Rightarrow> ('a Collaborators_scheme) \<Rightarrow> address \<Rightarrow> dline_Info \<Rightarrow> nat \<Rightarrow> SectorLocation
    \<Rightarrow> BitField \<Rightarrow> iteration" where
  "selectLocation cfg api m dl tot loc sectors =
     (case Count sectors of
        Inl err \<Rightarrow> Continue
      | Inr n \<Rightarrow>
          if WPoStPeriodDeadlines cfg = 0 then Panicked DivideByZero
          else if challenged (WPoStPeriodDeadlines cfg) loc dl then Continue
          else if n < 1 then Continue
          else
            (case Copy sectors of
               Inl err \<Rightarrow> Continue
             | Inr toTerminate \<Rightarrow>
                 (case StateMinerPartitions api m (Deadline loc) of
                    Inl err \<Rightarrow> Continue
                  | Inr ps \<Rightarrow>
                      if length ps \<le> unat (Partition loc) then Panicked IndexOutOfRange
                      else
                        (case IntersectBitField (LiveSectors (ps ! unat (Partition loc))) toTerminate of
                           Inl err \<Rightarrow> Continue
                         | Inr toTerminate \<Rightarrow>
                             if tot + n > AddressedSectorsMax cfg then
                               (let n = AddressedSectorsMax cfg - tot in
                                case Slice toTerminate 0 n of
                                  Inl err \<Rightarrow> Continue
                                | Inr toTerminate \<Rightarrow>
                                    (case SubtractBitField sectors toTerminate of
                                       Inl err \<Rightarrow> Continue
                                     | Inr s \<Rightarrow> Selected s n toTerminate))
                             else Selected sectors n toTerminate))))"

text \<open>
  The loop. Go visits the keys of a map in an order of its choosing, each key once;
  \<open>locs\<close> is the order of this run (the keys still to visit), \<open>td\<close> the map, \<open>total\<close>
  and \<open>terms\<close> the two accumulators. The result is the map, the total and the
  declarations when the loop is left, by exhaustion or by one of the two \<open>break\<close>s.
\<close>

fun selectLoop ::
  "Config \<Rightarrow> ('a Collaborators_scheme) \<Rightarrow> address \<Rightarrow> dline_Info \<Rightarrow> SectorLocation list
    \<Rightarrow> (SectorLocation \<rightharpoonup> BitField) \<Rightarrow> nat \<Rightarrow> TerminationDeclaration list
    \<Rightarrow> panic + ((SectorLocation \<rightharpoonup> BitField) \<times> nat \<times> TerminationDeclaration list)" where
  "selectLoop cfg api m dl [] td tot terms = Inr (td, tot, terms)"
| "selectLoop cfg api m dl (loc # locs) td tot terms =
     (case td loc of
        None \<Rightarrow> selectLoop cfg api m dl locs td tot terms
      | Some sectors \<Rightarrow>
          (case selectLocation cfg api m dl tot loc sectors of
             Continue \<Rightarrow> selectLoop cfg api m dl locs td tot terms
           | Panicked p \<Rightarrow> Inl p
           | Selected s n toTerminate \<Rightarrow>
               (let td' = td(loc \<mapsto> s);
                    tot' = tot + n;
                    terms' = terms @ [\<lparr>Deadline = Deadline loc, Partition = Partition loc,
                                       Sectors = toTerminate\<rparr>]
                in if tot' \<ge> AddressedSectorsMax cfg \<or> tot' \<ge> TerminateBatchMax cfg
                   then Inr (td', tot', terms')
                   else if length terms' \<ge> DeclarationsMax cfg then Inr (td', tot', terms')
                   else selectLoop cfg api m dl locs td' tot' terms')))"

subsection \<open>processBatch: after a successful submission (lines 228-245)\<close>

text \<open>\<open>for _, ch := range b.waiting[sn] { ch <- mcid }\<close>: a send appends to the channel's history.\<close>

fun sendAll :: "chan list \<Rightarrow> string \<Rightarrow> (chan \<Rightarrow> string list) \<Rightarrow> (chan \<Rightarrow> string list)" where
  "sendAll [] mcid cs = cs"
| "sendAll (ch # chs) mcid cs = sendAll chs mcid (cs(ch := cs ch @ [mcid]))"

text \<open>
  The callback of \<open>t.Sectors.ForEach\<close>, run on the set bits in turn: the waiters of the
  sector are sent the message id (a missing key reads as the empty list), then the key
  is deleted.
\<close>

fun notifySectors ::
  "nat list \<Rightarrow> string \<Rightarrow> (SectorNumber \<rightharpoonup> chan list) \<Rightarrow> (chan \<Rightarrow> string list)
    \<Rightarrow> (SectorNumber \<rightharpoonup> chan list) \<times> (chan \<Rightarrow> string list)" where
  "notifySectors [] mcid w cs = (w, cs)"
| "notifySectors (sn # sns) mcid w cs =
     notifySectors sns mcid (w(sn := None))
       (sendAll (case w sn of None \<Rightarrow> [] | Some chs \<Rightarrow> chs) mcid cs)"

text \<open>
  \<open>for _, t := range params.Terminations\<close>: the location of the declaration is deleted
  from \<open>todo\<close> and the waiters of its sectors are notified. An error of \<open>ForEach\<close> ends
  processBatch with that error, in the state reached.
\<close>

fun finishBatch ::
  "TerminationDeclaration list \<Rightarrow> string \<Rightarrow> TerminateBatcher \<Rightarrow> error option \<times> TerminateBatcher" where
  "finishBatch [] mcid b = (None, b)"
| "finishBatch (t # ts) mcid b =
     (let b1 = b\<lparr>todo := (todo b)(\<lparr>Deadline = Deadline t, Partition = Partition t\<rparr> := None)\<rparr>
      in case ForEach (Sectors t) of
           Inl err \<Rightarrow> (Some (Errorf ''sectors foreach'' err), b1)
         | Inr sns \<Rightarrow>
             (case notifySectors sns mcid (waiting b1) (chans b1) of
                (w, cs) \<Rightarrow> finishBatch ts mcid (b1\<lparr>waiting := w, chans := cs\<rparr>)))"

subsection \<open>processBatch: encoding and submission (lines 207-248)\<close>

definition sendBatch ::
  "('a Collaborators_scheme) \<Rightarrow> TerminateBatcher \<Rightarrow> TerminateSectorsParams
    \<Rightarrow> (error + string) \<times> TerminateBatcher" where
  "sendBatch api b params =
     (case MarshalCBOR api params of
        Inl err \<Rightarrow> (Inl (Errorf ''couldn't serialize TerminateSectors params'' err), b)
      | Inr enc \<Rightarrow>
          (case StateMinerInfo api (maddr b) of
             Inl err \<Rightarrow> (Inl (Errorf ''couldn't get miner info'' err), b)
           | Inr mi \<Rightarrow>
               (case addrSel api mi of
                  Inl err \<Rightarrow> (Inl (Errorf ''no good address found'' err), b)
                | Inr from \<Rightarrow>
                    (let b1 = b\<lparr>sent := sent b @ [(from, params)]\<rparr>
                     in case MessagerSendMsg api from (maddr b) enc of
                          Inl err \<Rightarrow> (Inl (Errorf ''sending message failed'' err), b1)
                        | Inr mcid \<Rightarrow>
                            (case finishBatch (Terminations params) mcid b1 of
                               (Some err, b2) \<Rightarrow> (Inl err, b2)
                             | (None, b2) \<Rightarrow> (Inr mcid, b2))))))"

subsection \<open>processBatch (lines 113-248)\<close>

text \<open>
  \<open>order\<close> is the order in which this run ranges over \<open>b.todo\<close>. The result is a panic,
  or the returned pair (an error, or the message id with a nil error) and the batcher
  afterwards.
\<close>

definition processBatch ::
  "Config \<Rightarrow> ('a Collaborators_scheme) \<Rightarrow> SectorLocation list \<Rightarrow> TerminateBatcher \<Rightarrow> bool \<Rightarrow> bool
    \<Rightarrow> panic + ((error + string) \<times> TerminateBatcher)" where
  "processBatch cfg api order b notif after =
     (case StateMinerProvingDeadline api (maddr b) of
        Inl err \<Rightarrow> Inr (Inl (Errorf ''getting proving deadline info failed'' err), b)
      | Inr dl \<Rightarrow>
          (case selectLoop cfg api (maddr b) dl order (todo b) 0 [] of
             Inl p \<Rightarrow> Inl p
           | Inr (td, tot, terms) \<Rightarrow>
               (let b1 = b\<lparr>todo := td\<rparr>
                in if length terms = 0 then Inr (Inr '''', b1)
                   else if notif \<and> tot < TerminateBatchMax cfg then Inr (Inr '''', b1)
                   else if after \<and> tot < TerminateBatchMin cfg then Inr (Inr '''', b1)
                   else Inr (sendBatch api b1 \<lparr>Terminations = terms\<rparr>))))"

subsection \<open>The background loop (lines 81-111)\<close>

text \<open>
  One iteration of \<open>run\<close> selects an event and calls processBatch with the two flags the
  event sets; the stop event, which ends the loop, is not an iteration.
\<close>

datatype event = Notify | Tick | Force

fun sendAboveMax :: "event \<Rightarrow> bool" where
  "sendAboveMax Notify = True"
| "sendAboveMax Tick = False"
| "sendAboveMax Force = False"

fun sendAboveMin :: "event \<Rightarrow> bool" where
  "sendAboveMin Notify = False"
| "sendAboveMin Tick = True"
| "sendAboveMin Force = False"

definition runIteration ::
  "Config \<Rightarrow> ('a Collaborators_scheme) \<Rightarrow> SectorLocation list \<Rightarrow> TerminateBatcher \<Rightarrow> event
    \<Rightarrow> panic + ((error + string) \<times> TerminateBatcher)" where
  "runIteration cfg api order b ev = processBatch cfg api order b (sendAboveMax ev) (sendAboveMin ev)"

subsection \<open>AddTermination (lines 252-306)\<close>

text \<open>
  AddTermination up to \<open>b.lk.Unlock()\<close>: it has returned (\<open>Returned mcid terminated err\<close>),
  or it has enrolled the sector and now waits on its new channel (\<open>Waiting sent\<close>) for
  the message id or for the cancellation of its context. \<open>parts[loc.Partition]\<close> is an
  unchecked index. The signal on \<open>notify\<close> is the notify event of the background loop.
\<close>

datatype addResult = Returned string bool "error option" | Waiting chan

definition AddTermination ::
  "('a Collaborators_scheme) \<Rightarrow> TerminateBatcher \<Rightarrow> SectorID \<Rightarrow> panic + (addResult \<times> TerminateBatcher)" where
  "AddTermination api b s =
     (case NewIDAddress (Miner s) of
        Inl err \<Rightarrow> Inr (Returned '''' False (Some err), b)
      | Inr maddr' \<Rightarrow>
          (case StateSectorPartition api maddr' (Number s) of
             Inl err \<Rightarrow> Inr (Returned '''' False (Some (Errorf ''getting sector location'' err)), b)
           | Inr None \<Rightarrow> Inr (Returned '''' False (Some (Err ''sector location not found'')), b)
           | Inr (Some loc) \<Rightarrow>
               (case StateMinerPartitions api maddr' (Deadline loc) of
                  Inl err \<Rightarrow> Inr (Returned '''' False (Some (Errorf ''getting partitions'' err)), b)
                | Inr parts \<Rightarrow>
                    if length parts \<le> unat (Partition loc) then Inl IndexOutOfRange
                    else
                      (case IsSet (LiveSectors (parts ! unat (Partition loc))) (Number s) of
                         Inl err \<Rightarrow>
                           Inr (Returned '''' False
                                  (Some (Errorf ''checking if sector is in live set'' err)), b)
                       | Inr live \<Rightarrow>
                           if \<not> live then Inr (Returned '''' True None, b)
                           else
                             (let bf = (case todo b loc of None \<Rightarrow> bitfield_New | Some bf \<Rightarrow> bf);
                                  sent' = nchan b
                              in Inr (Waiting sent',
                                   b\<lparr>todo := (todo b)(loc \<mapsto> SetBit bf (Number s)),
                                     waiting := (waiting b)(Number s \<mapsto>
                                        (case waiting b (Number s) of None \<Rightarrow> [] | Some chs \<Rightarrow> chs)
                                          @ [sent']),
                                     chans := (chans b)(sent' := []),
                                     nchan := nchan b + 1\<rparr>))))))"

subsection \<open>Pending (lines 323-355)\<close>

text \<open>
  The loop over \<open>b.todo\<close> appends one sector id for every set bit, in the order \<open>order\<close> of
  the run over the map.
\<close>

fun collectPending ::
  "SectorLocation list \<Rightarrow> (SectorLocation \<rightharpoonup> BitField) \<Rightarrow> nat \<Rightarrow> SectorID list
    \<Rightarrow> error + SectorID list" where
  "collectPending [] td mid res = Inr res"
| "collectPending (loc # locs) td mid res =
     (case td loc of
        None \<Rightarrow> collectPending locs td mid res
      | Some bf \<Rightarrow>
          (case ForEach bf of
             Inl err \<Rightarrow> Inl err
           | Inr ids \<Rightarrow> collectPending locs td mid (res @ map (\<lambda>i. \<lparr>Miner = mid, Number = i\<rparr>) ids)))"

text \<open>
  \<open>sort.Slice\<close> with the comparison "by Miner, then by Number" is the sort by the pair of
  the two fields in the lexicographic order.
\<close>

definition sectorKey :: "SectorID \<Rightarrow> nat \<times> nat" where
  "sectorKey s = (Miner s, Number s)"

definition Pending ::
  "SectorLocation list \<Rightarrow> TerminateBatcher \<Rightarrow> (error + SectorID list) \<times> TerminateBatcher" where
  "Pending order b =
     (case IDFromAddress (maddr b) of
        Inl err \<Rightarrow> (Inl err, b)
      | Inr mid \<Rightarrow>
          (case collectPending order (todo b) mid [] of
             Inl err \<Rightarrow> (Inl err, b)
           | Inr res \<Rightarrow> (Inr (sort_key sectorKey res), b)))"

subsection \<open>Notions used to state the properties\<close>

text \<open>
  The deadline exclusion as the specification writes it, over the natural numbers: the
  deadline is the current one, the next one \<open>(dl.Index + 1) mod P\<close> or the previous one
  \<open>(dl.Index - 1 + P) mod P\<close>.
\<close>

definition challenged_spec :: "nat \<Rightarrow> nat \<Rightarrow> nat \<Rightarrow> bool" where
  "challenged_spec P locDeadline dlIndex =
     (locDeadline = dlIndex \<or> locDeadline = (dlIndex + 1) mod P
      \<or> locDeadline = (dlIndex + P - 1) mod P)"

text \<open>The number of sector bits of a list of declarations.\<close>

definition sectorBits :: "TerminationDeclaration list \<Rightarrow> nat" where
  "sectorBits ts = sum_list (map (\<lambda>t. length (Sectors t)) ts)"

text \<open>The calls of \<open>MessagerSendMsg\<close> made between the batcher \<open>b\<close> and the batcher \<open>b'\<close>.\<close>

definition submitted ::
  "TerminateBatcher \<Rightarrow> TerminateBatcher \<Rightarrow> (address \<times> TerminateSectorsParams) list" where
  "submitted b b' = drop (length (sent b)) (sent b')"

text \<open>The sector ids Pending appends for one key of \<open>todo\<close>.\<close>

definition pendingOf :: "(SectorLocation \<rightharpoonup> BitField) \<Rightarrow> nat \<Rightarrow> SectorLocation \<Rightarrow> SectorID list" where
  "pendingOf td mid loc =
     (case td loc of None \<Rightarrow> [] | Some bf \<Rightarrow> map (\<lambda>i. \<lparr>Miner = mid, Number = i\<rparr>) bf)"

text \<open>
  The batchers that can arise: a new batcher, and the batcher after any call of
  AddTermination or of processBatch that returns, whatever the collaborators answer,
  whatever the constants and the flags, and in whatever order the map is visited.
\<close>

inductive reachable :: "TerminateBatcher \<Rightarrow> bool" where
  new: "reachable (NewTerminationBatcher a)"
| add: "reachable b \<Longrightarrow> AddTermination (api :: Collaborators) b s = Inr (r, b') \<Longrightarrow> reachable b'"
| batch: "reachable b \<Longrightarrow> processBatch cfg (api :: Collaborators) order b notif after = Inr (res, b')
    \<Longrightarrow> reachable b'"

text \<open>
  The state of the waiters: no channel has been sent more than one message id; the
  channels not yet made have been sent none; the channels of a waiter list are distinct,
  have been made and have been sent nothing; and the waiter lists of two sector numbers
  share no channel.
\<close>

definition waitersOk :: "(SectorNumber \<rightharpoonup> chan list) \<Rightarrow> (chan \<Rightarrow> string list) \<Rightarrow> nat \<Rightarrow> bool" where
  "waitersOk w cs n =
     ((\<forall>c. length (cs c) \<le> 1)
      \<and> (\<forall>c. n \<le> c \<longrightarrow> cs c = [])
      \<and> (\<forall>sn chs. w sn = Some chs \<longrightarrow> distinct chs \<and> (\<forall>c\<in>set chs. c < n \<and> cs c = []))
      \<and> (\<forall>sn sn' chs chs'. sn \<noteq> sn' \<longrightarrow> w sn = Some chs \<longrightarrow> w sn' = Some chs'
            \<longrightarrow> set chs \<inter> set chs' = {}))"

subsection \<open>A concrete batcher\<close>

text \<open>
  A chain view with one partition of three live sectors at deadline 10 while deadline 0
  is being proven, collaborators that all succeed, and the batcher bound to miner 1000
  after three calls of AddTermination, for the sectors 1, 2 and 3.
\<close>

definition exampleLoc :: SectorLocation where
  "exampleLoc = \<lparr>Deadline = 10, Partition = 0\<rparr>"

definition exampleApi :: Collaborators where
  "exampleApi =
     \<lparr>StateSectorPartition = (\<lambda>a n. Inr (Some exampleLoc)),
      MessagerSendMsg = (\<lambda>from to enc. Inr ''msg-1''),
      StateMinerInfo = (\<lambda>a. Inr \<lparr>Owner = IDAddress 100, Worker = IDAddress 101\<rparr>),
      StateMinerProvingDeadline = (\<lambda>a. Inr \<lparr>Index = 0\<rparr>),
      StateMinerPartitions = (\<lambda>a d. Inr [\<lparr>LiveSectors = [1, 2, 3]\<rparr>]),
      addrSel = (\<lambda>mi. Inr (Worker mi)),
      MarshalCBOR = (\<lambda>p. Inr [])\<rparr>"

definition exampleConfig :: Config where
  "exampleConfig =
     \<lparr>WPoStPeriodDeadlines = 48, AddressedSectorsMax = 10, DeclarationsMax = 5,
      TerminateBatchMax = 3, TerminateBatchMin = 1\<rparr>"

definition enrolled :: "Collaborators \<Rightarrow> TerminateBatcher \<Rightarrow> SectorID \<Rightarrow> TerminateBatcher" where
  "enrolled api b s = (case AddTermination api b s of Inr (r, b') \<Rightarrow> b' | Inl p \<Rightarrow> b)"

definition exampleBatcher :: TerminateBatcher where
  "exampleBatcher =
     enrolled exampleApi
       (enrolled exampleApi
          (enrolled exampleApi (NewTerminationBatcher (IDAddress 1000)) \<lparr>Miner = 1000, Number = 1\<rparr>)
          \<lparr>Miner = 1000, Number = 2\<rparr>)
       \<lparr>Miner = 1000, Number = 3\<rparr>"

text \<open>
  The caps of scenario S4 scaled down: a message addresses at most two sectors, and two
  sectors fill a batch. The second chain view differs from the first in the message
  submitter only, which rejects the message.
\<close>

definition cappedConfig :: Config where
  "cappedConfig =
     \<lparr>WPoStPeriodDeadlines = 48, AddressedSectorsMax = 2, DeclarationsMax = 5,
      TerminateBatchMax = 2, TerminateBatchMin = 1\<rparr>"

definition failingSendApi :: Collaborators where
  "failingSendApi = exampleApi\<lparr>MessagerSendMsg := (\<lambda>from to enc. Inl (Err ''send failed''))\<rparr>"

definition afterFirstBatch :: TerminateBatcher where
  "afterFirstBatch =
     snd (projr (runIteration cappedConfig exampleApi [exampleLoc] exampleBatcher Notify))"

definition afterFailedSend :: TerminateBatcher where
  "afterFailedSend =
     snd (projr (runIteration cappedConfig failingSendApi [exampleLoc] exampleBatcher Notify))"

text \<open>
  Scenario S4 in full: 150 sectors are pending and live in one location, and a message
  addresses at most 100 sectors.
\<close>

definition S4Config :: Config where
  "S4Config =
     \<lparr>WPoStPeriodDeadlines = 48, AddressedSectorsMax = 100, DeclarationsMax = 3000,
      TerminateBatchMax = 100, TerminateBatchMin = 1\<rparr>"

definition S4Api :: Collaborators where
  "S4Api = exampleApi\<lparr>StateMinerPartitions := (\<lambda>a d. Inr [\<lparr>LiveSectors = [0..<150]\<rparr>])\<rparr>"

definition S4Batcher :: TerminateBatcher where
  "S4Batcher =
     \<lparr>maddr = IDAddress 1000, todo = [exampleLoc \<mapsto> [0..<150]],
      waiting = (\<lambda>n. if n < 150 then Some [n] else None), chans = (\<lambda>_. []), nchan = 150,
      sent = []\<rparr>"

text \<open>
  A chain view with two locations, sector 1 at deadline 10 and every other sector at
  deadline 20, and the batcher after AddTermination of the sectors 1 and 2.
\<close>

definition otherLoc :: SectorLocation where
  "otherLoc = \<lparr>Deadline = 20, Partition = 0\<rparr>"

definition twoLocApi :: Collaborators where
  "twoLocApi =
     exampleApi\<lparr>StateSectorPartition := (\<lambda>a n. Inr (Some (if n = 1 then exampleLoc else otherLoc)))\<rparr>"

definition twoLocBatcher :: TerminateBatcher where
  "twoLocBatcher =
     enrolled twoLocApi
       (enrolled twoLocApi (NewTerminationBatcher (IDAddress 1000)) \<lparr>Miner = 1000, Number = 1\<rparr>)
       \<lparr>Miner = 1000, Number = 2\<rparr>"

section \<open>Properties\<close>

subsection \<open>The two forms of the previous-deadline test\<close>

lemma previous_nat:
  fixes d i p :: nat
  assumes "d < p" and "i < p"
  shows "((d + 1) mod p = i) = (d = (i + p - 1) mod p)"
proof (cases "i = 0")
  case True
  show ?thesis
  proof (cases "d + 1 = p")
    case True
    with \<open>i = 0\<close> assms show ?thesis by simp
  next
    case False
    with assms have "d + 1 < p" by simp
    with \<open>i = 0\<close> show ?thesis by simp
  qed
next
  case False
  with assms have e: "i + p - 1 = p + (i - 1)" and lt: "i - 1 < p"
    by simp_all
  have prev: "(i + p - 1) mod p = i - 1"
    unfolding e using lt by simp
  show ?thesis
  proof (cases "d + 1 = p")
    case True
    with assms False prev show ?thesis by auto
  next
    case False
    with assms have "d + 1 < p" by simp
    with \<open>i \<noteq> 0\<close> prev show ?thesis by auto
  qed
qed

lemma unat_succ_mod:
  fixes d P :: uint64
  assumes "unat d < unat P"
  shows "unat ((d + 1) mod P) = (unat d + 1) mod unat P"
proof -
  have "unat P < 2 ^ 64"
    using unsigned_less [of P] by simp
  with assms have "unat d + unat (1::uint64) < 2 ^ LENGTH(64)"
    by simp
  then have "unat (d + 1) = unat d + 1"
    by (simp add: unat_add_lem [THEN iffD1])
  then show ?thesis
    by (simp add: unat_mod)
qed

text \<open>
  C9. For a location deadline and a current deadline index both below
  \<open>P = WPoStPeriodDeadlines\<close> (so \<open>P > 0\<close>), the test of the code for the previous
  deadline, \<open>(loc.Deadline + 1) % P == dl.Index\<close> in 64-bit arithmetic, holds exactly
  when \<open>loc.Deadline == (dl.Index + P - 1) % P\<close>, and the whole filter of the code
  agrees with the filter the specification describes.
\<close>

theorem previous_deadline_forms_agree:
  fixes P :: uint64
  assumes "unat (Deadline loc) < unat P" and "unat (Index dl) < unat P"
  shows "inPreviousDeadline P (Deadline loc) (Index dl)
           = previousDeadline_spec (unat P) (unat (Deadline loc)) (unat (Index dl))
       \<and> challenged P loc dl
           = challenged_spec (unat P) (unat (Deadline loc)) (unat (Index dl))"
proof -
  have prev: "inPreviousDeadline P (Deadline loc) (Index dl)
      = previousDeadline_spec (unat P) (unat (Deadline loc)) (unat (Index dl))"
    unfolding inPreviousDeadline_def previousDeadline_spec_def
    using previous_nat [OF assms] unat_succ_mod [OF assms(1)]
    by (simp add: word_unat_eq_iff)
  have nxt: "inNextDeadline P (Deadline loc) (Index dl)
      = (unat (Deadline loc) = (unat (Index dl) + 1) mod unat P)"
    unfolding inNextDeadline_def
    using unat_succ_mod [OF assms(2)]
    by (simp add: word_unat_eq_iff)
  show ?thesis
    using prev nxt
    by (auto simp: challenged_def challenged_spec_def previousDeadline_spec_def word_unat_eq_iff)
qed

theorem previous_deadline_forms_agree_witness:
  "inPreviousDeadline 48 (Deadline \<lparr>Deadline = 47, Partition = 0\<rparr>) (Index \<lparr>Index = 0\<rparr>)
     \<and> previousDeadline_spec (unat (48::uint64)) 47 0
     \<and> challenged 48 \<lparr>Deadline = 47, Partition = 0\<rparr> \<lparr>Index = 0\<rparr>
     \<and> challenged_spec (unat (48::uint64)) 47 0"
  using previous_deadline_forms_agree [of "\<lparr>Deadline = 47, Partition = 0\<rparr>" 48 "\<lparr>Index = 0\<rparr>"]
  by (simp add: inPreviousDeadline_def previousDeadline_spec_def challenged_spec_def)

subsection \<open>The selection loop\<close>

lemma sectorBits_simps [simp]:
  "sectorBits [] = 0"
  "sectorBits (ts @ us) = sectorBits ts + sectorBits us"
  "sectorBits (t # ts) = length (Sectors t) + sectorBits ts"
  by (simp_all add: sectorBits_def)

lemma selectLocation_Selected:
  assumes "selectLocation cfg api m dl tot loc sectors = Selected s n tt"
  shows "WPoStPeriodDeadlines cfg \<noteq> 0"
    and "\<not> challenged (WPoStPeriodDeadlines cfg) loc dl"
    and "length tt \<le> n"
    and "tot \<le> AddressedSectorsMax cfg \<Longrightarrow> tot + n \<le> AddressedSectorsMax cfg"
  using assms
  by (auto simp: selectLocation_def Count_def Copy_def IntersectBitField_def Slice_def
      SubtractBitField_def Let_def
      intro: order_trans [OF length_filter_le]
      split: if_splits sum.splits)

lemma selectLoop_invariant:
  assumes run: "selectLoop cfg api m dl locs td tot terms = Inr (td', tot', terms')"
    and init: "I td tot terms"
    and step: "\<And>loc sectors s n tt td tot terms.
        I td tot terms \<Longrightarrow> td loc = Some sectors \<Longrightarrow>
        selectLocation cfg api m dl tot loc sectors = Selected s n tt \<Longrightarrow>
        I (td(loc \<mapsto> s)) (tot + n)
          (terms @ [\<lparr>Deadline = Deadline loc, Partition = Partition loc, Sectors = tt\<rparr>])"
  shows "I td' tot' terms'"
  using run init
proof (induction locs arbitrary: td tot terms)
  case Nil
  then show ?case by simp
next
  case (Cons loc locs)
  show ?case
  proof (cases "td loc")
    case None
    with Cons show ?thesis by simp
  next
    case (Some sectors)
    show ?thesis
    proof (cases "selectLocation cfg api m dl tot loc sectors")
      case Continue
      with Some Cons show ?thesis by simp
    next
      case (Panicked p)
      with Some Cons.prems show ?thesis by simp
    next
      case (Selected s n tt)
      from step [OF Cons.prems(2) Some Selected] Cons.prems(1) Some Selected Cons.IH
      show ?thesis
        by (auto simp: Let_def split: if_splits)
    qed
  qed
qed

lemma selectLoop_bits:
  assumes "selectLoop cfg api m dl locs td tot terms = Inr (td', tot', terms')"
    and "sectorBits terms \<le> tot" and "tot \<le> AddressedSectorsMax cfg"
  shows "sectorBits terms' \<le> tot' \<and> tot' \<le> AddressedSectorsMax cfg"
proof (rule selectLoop_invariant [OF assms(1),
      where I = "\<lambda>td tot terms. sectorBits terms \<le> tot \<and> tot \<le> AddressedSectorsMax cfg"])
  show "sectorBits terms \<le> tot \<and> tot \<le> AddressedSectorsMax cfg" using assms by simp
next
  fix loc sectors s n tt and td :: "SectorLocation \<rightharpoonup> BitField" and tot terms
  assume "sectorBits terms \<le> tot \<and> tot \<le> AddressedSectorsMax cfg"
    and "selectLocation cfg api m dl tot loc sectors = Selected s n tt"
  then show "sectorBits (terms @ [\<lparr>Deadline = Deadline loc, Partition = Partition loc, Sectors = tt\<rparr>])
      \<le> tot + n \<and> tot + n \<le> AddressedSectorsMax cfg"
    using selectLocation_Selected(3,4) [of cfg api m dl tot loc sectors s n tt] by simp
qed

lemma selectLoop_not_challenged:
  assumes "selectLoop cfg api m dl locs td tot terms = Inr (td', tot', terms')"
    and "t \<in> set terms'" and "t \<notin> set terms"
  shows "WPoStPeriodDeadlines cfg \<noteq> 0
    \<and> \<not> challenged (WPoStPeriodDeadlines cfg) \<lparr>Deadline = Deadline t, Partition = Partition t\<rparr> dl"
proof -
  let ?ok = "\<lambda>t. WPoStPeriodDeadlines cfg \<noteq> 0
    \<and> \<not> challenged (WPoStPeriodDeadlines cfg) \<lparr>Deadline = Deadline t, Partition = Partition t\<rparr> dl"
  have "\<forall>t \<in> set terms'. t \<in> set terms \<or> ?ok t"
  proof (rule selectLoop_invariant [OF assms(1),
        where I = "\<lambda>td tot ts. \<forall>t \<in> set ts. t \<in> set terms \<or> ?ok t"])
    show "\<forall>t \<in> set terms. t \<in> set terms \<or> ?ok t" by simp
  next
    fix loc sectors s n tt and td :: "SectorLocation \<rightharpoonup> BitField" and tot ts
    assume "\<forall>t \<in> set ts. t \<in> set terms \<or> ?ok t"
      and "selectLocation cfg api m dl tot loc sectors = Selected s n tt"
    then show "\<forall>t \<in> set (ts @ [\<lparr>Deadline = Deadline loc, Partition = Partition loc, Sectors = tt\<rparr>]).
        t \<in> set terms \<or> ?ok t"
      using selectLocation_Selected(1,2) [of cfg api m dl tot loc sectors s n tt]
      by (auto simp: challenged_def)
  qed
  with assms(2,3) show ?thesis by blast
qed

lemma selectLoop_length:
  "selectLoop cfg api m dl locs td tot terms = Inr (td', tot', terms') \<Longrightarrow>
   length terms < DeclarationsMax cfg \<Longrightarrow> length terms' \<le> DeclarationsMax cfg"
proof (induction locs arbitrary: td tot terms)
  case Nil
  then show ?case by simp
next
  case (Cons loc locs)
  show ?case
  proof (cases "td loc")
    case None
    with Cons show ?thesis by simp
  next
    case (Some sectors)
    show ?thesis
    proof (cases "selectLocation cfg api m dl tot loc sectors")
      case Continue
      with Some Cons show ?thesis by simp
    next
      case (Panicked p)
      with Some Cons.prems show ?thesis by simp
    next
      case (Selected s n tt)
      from Cons.prems Some Selected Cons.IH
      show ?thesis
        by (auto simp: Let_def split: if_splits)
    qed
  qed
qed

lemma selectLoop_butlast:
  "selectLoop cfg api m dl locs td tot terms = Inr (td', tot', terms') \<Longrightarrow>
   sectorBits terms \<le> tot \<Longrightarrow>
   terms' = terms \<or> butlast terms' = terms \<or> sectorBits (butlast terms') < TerminateBatchMax cfg"
proof (induction locs arbitrary: td tot terms)
  case Nil
  then show ?case by simp
next
  case (Cons loc locs)
  show ?case
  proof (cases "td loc")
    case None
    with Cons show ?thesis by simp
  next
    case (Some sectors)
    show ?thesis
    proof (cases "selectLocation cfg api m dl tot loc sectors")
      case Continue
      with Some Cons show ?thesis by simp
    next
      case (Panicked p)
      with Some Cons.prems show ?thesis by simp
    next
      case (Selected s n tt)
      let ?terms1 = "terms @ [\<lparr>Deadline = Deadline loc, Partition = Partition loc, Sectors = tt\<rparr>]"
      have bits: "sectorBits ?terms1 \<le> tot + n"
        using selectLocation_Selected(3) [OF Selected] Cons.prems(2) by simp
      show ?thesis
      proof (cases "tot + n \<ge> AddressedSectorsMax cfg \<or> tot + n \<ge> TerminateBatchMax cfg
          \<or> length ?terms1 \<ge> DeclarationsMax cfg")
        case True
        with Cons.prems(1) Some Selected have "terms' = ?terms1"
          by (auto simp: Let_def split: if_splits)
        then show ?thesis by simp
      next
        case False
        with Cons.prems(1) Some Selected
        have "selectLoop cfg api m dl locs (td(loc \<mapsto> s)) (tot + n) ?terms1 = Inr (td', tot', terms')"
          by (auto simp: Let_def split: if_splits)
        from Cons.IH [OF this bits] False bits show ?thesis by auto
      qed
    qed
  qed
qed

subsection \<open>What processBatch submits\<close>

lemma notChallenged_spec:
  fixes P :: uint64
  assumes "unat (Index dl) < unat P" and "\<not> challenged P loc dl"
  shows "\<not> challenged_spec (unat P) (unat (Deadline loc)) (unat (Index dl))"
proof
  assume spec: "challenged_spec (unat P) (unat (Deadline loc)) (unat (Index dl))"
  from assms(1) have pos: "0 < unat P" by simp
  from spec consider
      (cur) "unat (Deadline loc) = unat (Index dl)"
    | (nxt) "unat (Deadline loc) = (unat (Index dl) + 1) mod unat P"
    | (prv) "unat (Deadline loc) = (unat (Index dl) + unat P - 1) mod unat P"
    by (auto simp: challenged_spec_def)
  then have "challenged P loc dl"
  proof cases
    case cur
    then show ?thesis by (simp add: challenged_def word_unat_eq_iff)
  next
    case nxt
    with unat_succ_mod [OF assms(1)] show ?thesis
      by (simp add: challenged_def inNextDeadline_def word_unat_eq_iff)
  next
    case prv
    with pos have lt: "unat (Deadline loc) < unat P" by simp
    from previous_nat [OF lt assms(1)] prv unat_succ_mod [OF lt] show ?thesis
      by (simp add: challenged_def inPreviousDeadline_def word_unat_eq_iff)
  qed
  with assms(2) show False by simp
qed

lemma finishBatch_sent:
  "finishBatch ts mcid b = (e, b') \<Longrightarrow> sent b' = sent b"
proof (induction ts arbitrary: b)
  case Nil
  then show ?case by simp
next
  case (Cons t ts)
  then show ?case
    by (fastforce simp: Let_def ForEach_def split: prod.splits)
qed

lemma sendBatch_sent:
  assumes "sendBatch api b params = (r, b')"
  shows "sent b' = sent b \<or> (\<exists>from. sent b' = sent b @ [(from, params)])"
  using assms
  by (auto simp: sendBatch_def Let_def dest: finishBatch_sent
      split: sum.splits prod.splits option.splits)

lemma processBatch_submitted:
  assumes "processBatch cfg api order b notif after = Inr (r, b')"
    and "(from, params) \<in> set (submitted b b')"
  shows "\<exists>dl td tot. StateMinerProvingDeadline api (maddr b) = Inr dl
      \<and> selectLoop cfg api (maddr b) dl order (todo b) 0 [] = Inr (td, tot, Terminations params)
      \<and> Terminations params \<noteq> []
      \<and> \<not> (notif \<and> tot < TerminateBatchMax cfg)
      \<and> \<not> (after \<and> tot < TerminateBatchMin cfg)"
proof (cases "StateMinerProvingDeadline api (maddr b)")
  case (Inl err)
  with assms show ?thesis
    by (auto simp: processBatch_def submitted_def)
next
  case (Inr dl)
  show ?thesis
  proof (cases "selectLoop cfg api (maddr b) dl order (todo b) 0 []")
    case (Inl p)
    with Inr assms(1) show ?thesis
      by (simp add: processBatch_def)
  next
    case sel: (Inr res)
    obtain td tot terms where res: "res = (td, tot, terms)"
      by (cases res) auto
    show ?thesis
    proof (cases "terms = [] \<or> (notif \<and> tot < TerminateBatchMax cfg)
        \<or> (after \<and> tot < TerminateBatchMin cfg)")
      case True
      with Inr sel res assms(1) have "sent b' = sent b"
        by (auto simp: processBatch_def Let_def split: if_splits)
      with assms(2) show ?thesis
        by (simp add: submitted_def)
    next
      case False
      with Inr sel res assms(1)
      have "sendBatch api (b\<lparr>todo := td\<rparr>) \<lparr>Terminations = terms\<rparr> = (r, b')"
        by (auto simp: processBatch_def Let_def split: if_splits)
      from sendBatch_sent [OF this] assms(2) have "params = \<lparr>Terminations = terms\<rparr>"
        by (auto simp: submitted_def)
      with Inr sel res False show ?thesis by simp
    qed
  qed
qed

subsection \<open>Evaluation of the model on concrete inputs\<close>

lemmas eval_defs = processBatch_def selectLocation_def Count_def Copy_def challenged_def
  inNextDeadline_def inPreviousDeadline_def IntersectBitField_def Slice_def SubtractBitField_def
  sendBatch_def ForEach_def AddTermination_def NewIDAddress_def IsSet_def SetBit_def
  bitfield_New_def enrolled_def NewTerminationBatcher_def exampleApi_def exampleConfig_def
  exampleLoc_def exampleBatcher_def submitted_def runIteration_def sectorBits_def
  challenged_spec_def

subsection \<open>Deadline exclusion\<close>

text \<open>
  C4. When the chain view reports a current deadline index below \<open>WPoStPeriodDeadlines\<close>
  (its contract), no declaration that processBatch passes to \<open>MessagerSendMsg\<close> has a
  deadline equal to the current index \<open>dl.Index\<close>, to the next index
  \<open>(dl.Index + 1) mod P\<close> or to the previous index \<open>(dl.Index - 1 + P) mod P\<close>, where
  \<open>dl\<close> is the deadline info read by the same invocation.
\<close>

theorem deadline_exclusion:
  assumes "processBatch cfg api order b notif after = Inr (r, b')"
    and "StateMinerProvingDeadline api (maddr b) = Inr dl"
    and "unat (Index dl) < unat (WPoStPeriodDeadlines cfg)"
    and "(from, params) \<in> set (submitted b b')"
    and "t \<in> set (Terminations params)"
  shows "unat (Deadline t) \<noteq> unat (Index dl)
     \<and> unat (Deadline t) \<noteq> (unat (Index dl) + 1) mod unat (WPoStPeriodDeadlines cfg)
     \<and> unat (Deadline t)
          \<noteq> (unat (Index dl) + unat (WPoStPeriodDeadlines cfg) - 1) mod unat (WPoStPeriodDeadlines cfg)"
proof -
  from processBatch_submitted [OF assms(1,4)] assms(2)
  obtain td tot where
    "selectLoop cfg api (maddr b) dl order (todo b) 0 [] = Inr (td, tot, Terminations params)"
    by auto
  from selectLoop_not_challenged [OF this assms(5)]
  have "\<not> challenged (WPoStPeriodDeadlines cfg) \<lparr>Deadline = Deadline t, Partition = Partition t\<rparr> dl"
    by simp
  from notChallenged_spec [OF assms(3) this] show ?thesis
    by (simp add: challenged_spec_def)
qed

theorem deadline_exclusion_witness:
  "processBatch exampleConfig exampleApi [exampleLoc] exampleBatcher False False
     = Inr (Inr ''msg-1'',
            snd (projr (processBatch exampleConfig exampleApi [exampleLoc] exampleBatcher False False)))
   \<and> submitted exampleBatcher
        (snd (projr (processBatch exampleConfig exampleApi [exampleLoc] exampleBatcher False False)))
       = [(IDAddress 101, \<lparr>Terminations = [\<lparr>Deadline = 10, Partition = 0, Sectors = [1, 2, 3]\<rparr>]\<rparr>)]
   \<and> unat (10 :: uint64) \<noteq> (unat (0 :: uint64) + unat (48 :: uint64) - 1) mod unat (48 :: uint64)"
proof -
  let ?run = "processBatch exampleConfig exampleApi [exampleLoc] exampleBatcher False False"
  have run: "?run = Inr (Inr ''msg-1'', snd (projr ?run))"
    by (simp add: eval_defs)
  have sub: "submitted exampleBatcher (snd (projr ?run))
      = [(IDAddress 101, \<lparr>Terminations = [\<lparr>Deadline = 10, Partition = 0, Sectors = [1, 2, 3]\<rparr>]\<rparr>)]"
    by (simp add: eval_defs)
  have dl: "StateMinerProvingDeadline exampleApi (maddr exampleBatcher) = Inr \<lparr>Index = 0\<rparr>"
    by (simp add: exampleApi_def)
  have "unat (Deadline \<lparr>Deadline = 10 :: uint64, Partition = 0 :: uint64, Sectors = [1, 2, 3]\<rparr>)
      \<noteq> (unat (Index \<lparr>Index = 0\<rparr>) + unat (WPoStPeriodDeadlines exampleConfig) - 1)
          mod unat (WPoStPeriodDeadlines exampleConfig)"
    using deadline_exclusion [OF run dl, of "IDAddress 101"
        "\<lparr>Terminations = [\<lparr>Deadline = 10, Partition = 0, Sectors = [1, 2, 3]\<rparr>]\<rparr>"
        "\<lparr>Deadline = 10, Partition = 0, Sectors = [1, 2, 3]\<rparr>"] sub
    by (simp add: exampleConfig_def)
  with run sub show ?thesis
    by (simp add: exampleConfig_def)
qed

subsection \<open>Caps of a submitted message\<close>

lemma selectLoop_length_max:
  "selectLoop cfg api m dl locs td tot terms = Inr (td', tot', terms') \<Longrightarrow>
   length terms' \<le> max (length terms + 1) (DeclarationsMax cfg)"
proof (induction locs arbitrary: td tot terms)
  case Nil
  then show ?case by simp
next
  case (Cons loc locs)
  show ?case
  proof (cases "td loc")
    case None
    with Cons show ?thesis by simp
  next
    case (Some sectors)
    show ?thesis
    proof (cases "selectLocation cfg api m dl tot loc sectors")
      case Continue
      with Some Cons show ?thesis by simp
    next
      case (Panicked p)
      with Some Cons.prems show ?thesis by simp
    next
      case (Selected s n tt)
      let ?terms1 = "terms @ [\<lparr>Deadline = Deadline loc, Partition = Partition loc, Sectors = tt\<rparr>]"
      show ?thesis
      proof (cases "tot + n \<ge> AddressedSectorsMax cfg \<or> tot + n \<ge> TerminateBatchMax cfg
          \<or> length ?terms1 \<ge> DeclarationsMax cfg")
        case True
        with Cons.prems Some Selected have "terms' = ?terms1"
          by (auto simp: Let_def split: if_splits)
        then show ?thesis by simp
      next
        case False
        with Cons.prems Some Selected
        have "selectLoop cfg api m dl locs (td(loc \<mapsto> s)) (tot + n) ?terms1 = Inr (td', tot', terms')"
          by (auto simp: Let_def split: if_splits)
        from Cons.IH [OF this] False show ?thesis by simp
      qed
    qed
  qed
qed

text \<open>
  C3, as the code has it. For every parameters value that processBatch passes to
  \<open>MessagerSendMsg\<close>: the sector bits of all declarations are at most
  \<open>AddressedSectorsMax\<close>; the declarations are at most \<open>DeclarationsMax\<close> when
  \<open>DeclarationsMax\<close> is at least 1, and there is a single declaration when
  \<open>DeclarationsMax\<close> is 0; and, forced or not, whenever the message has more than one
  declaration or \<open>TerminateBatchMax\<close> is at least 1, the sector bits of all declarations
  but the last are fewer than \<open>TerminateBatchMax\<close>. The loop stops adding declarations
  once the running total has reached \<open>TerminateBatchMax\<close> or the declarations have
  reached \<open>DeclarationsMax\<close>; it checks both after a declaration is appended, and it does
  not cut the last declaration down to \<open>TerminateBatchMax\<close>.
\<close>

theorem cap_compliance:
  assumes "processBatch cfg api order b notif after = Inr (r, b')"
    and "(from, params) \<in> set (submitted b b')"
  shows "sectorBits (Terminations params) \<le> AddressedSectorsMax cfg
     \<and> (1 \<le> DeclarationsMax cfg \<longrightarrow> length (Terminations params) \<le> DeclarationsMax cfg)
     \<and> (DeclarationsMax cfg = 0 \<longrightarrow> length (Terminations params) = 1)
     \<and> (1 < length (Terminations params) \<or> 1 \<le> TerminateBatchMax cfg \<longrightarrow>
          sectorBits (butlast (Terminations params)) < TerminateBatchMax cfg)"
proof -
  from processBatch_submitted [OF assms]
  obtain dl td tot where
    loop: "selectLoop cfg api (maddr b) dl order (todo b) 0 [] = Inr (td, tot, Terminations params)"
    and ne: "Terminations params \<noteq> []"
    by auto
  from selectLoop_bits [OF loop]
  have bits: "sectorBits (Terminations params) \<le> AddressedSectorsMax cfg"
    by simp
  from selectLoop_length [OF loop]
  have pos: "1 \<le> DeclarationsMax cfg \<longrightarrow> length (Terminations params) \<le> DeclarationsMax cfg"
    by simp
  from selectLoop_length_max [OF loop] ne
  have zero: "DeclarationsMax cfg = 0 \<longrightarrow> length (Terminations params) = 1"
    by (cases "Terminations params") auto
  from selectLoop_butlast [OF loop]
  have "length (Terminations params) \<le> 1
      \<or> sectorBits (butlast (Terminations params)) < TerminateBatchMax cfg"
    by (cases "Terminations params" rule: rev_cases) auto
  moreover have "sectorBits (butlast (Terminations params)) = 0"
    if "length (Terminations params) \<le> 1"
    using that by (cases "Terminations params") auto
  ultimately have rest: "1 < length (Terminations params) \<or> 1 \<le> TerminateBatchMax cfg \<longrightarrow>
      sectorBits (butlast (Terminations params)) < TerminateBatchMax cfg"
    by auto
  from bits pos zero rest show ?thesis
    by (intro conjI)
qed

theorem cap_compliance_witness:
  "processBatch exampleConfig twoLocApi [exampleLoc, otherLoc] twoLocBatcher False False
     = Inr (Inr ''msg-1'',
            snd (projr (processBatch exampleConfig twoLocApi [exampleLoc, otherLoc] twoLocBatcher
                          False False)))
   \<and> submitted twoLocBatcher
        (snd (projr (processBatch exampleConfig twoLocApi [exampleLoc, otherLoc] twoLocBatcher
                      False False)))
       = [(IDAddress 101, \<lparr>Terminations = [\<lparr>Deadline = 10, Partition = 0, Sectors = [1]\<rparr>,
                                              \<lparr>Deadline = 20, Partition = 0, Sectors = [2]\<rparr>]\<rparr>)]
   \<and> sectorBits [\<lparr>Deadline = 10, Partition = 0, Sectors = [1]\<rparr>,
                   \<lparr>Deadline = 20, Partition = 0, Sectors = [2]\<rparr>] \<le> AddressedSectorsMax exampleConfig
   \<and> 1 \<le> DeclarationsMax exampleConfig
   \<and> length [\<lparr>Deadline = 10 :: uint64, Partition = 0 :: uint64, Sectors = [1 :: nat]\<rparr>,
               \<lparr>Deadline = 20, Partition = 0, Sectors = [2]\<rparr>] \<le> DeclarationsMax exampleConfig
   \<and> 1 < length [\<lparr>Deadline = 10 :: uint64, Partition = 0 :: uint64, Sectors = [1 :: nat]\<rparr>,
                   \<lparr>Deadline = 20, Partition = 0, Sectors = [2]\<rparr>]
   \<and> sectorBits [\<lparr>Deadline = 10, Partition = 0, Sectors = [1]\<rparr>] < TerminateBatchMax exampleConfig
   \<and> DeclarationsMax (exampleConfig\<lparr>DeclarationsMax := 0\<rparr>) = 0
   \<and> submitted exampleBatcher
        (snd (projr (processBatch (exampleConfig\<lparr>DeclarationsMax := 0\<rparr>) exampleApi [exampleLoc]
                      exampleBatcher False False)))
       = [(IDAddress 101, \<lparr>Terminations = [\<lparr>Deadline = 10, Partition = 0, Sectors = [1, 2, 3]\<rparr>]\<rparr>)]
   \<and> length [\<lparr>Deadline = 10 :: uint64, Partition = 0 :: uint64, Sectors = [1, 2, 3 :: nat]\<rparr>] = 1"
proof -
  let ?run = "processBatch exampleConfig twoLocApi [exampleLoc, otherLoc] twoLocBatcher False False"
  let ?params = "\<lparr>Terminations = [\<lparr>Deadline = 10 :: uint64, Partition = 0 :: uint64, Sectors = [1 :: nat]\<rparr>,
                                   \<lparr>Deadline = 20, Partition = 0, Sectors = [2]\<rparr>]\<rparr>"
  let ?cfgz = "exampleConfig\<lparr>DeclarationsMax := 0\<rparr>"
  let ?runz = "processBatch ?cfgz exampleApi [exampleLoc] exampleBatcher False False"
  let ?paramsz = "\<lparr>Terminations = [\<lparr>Deadline = 10 :: uint64, Partition = 0 :: uint64,
                                     Sectors = [1, 2, 3 :: nat]\<rparr>]\<rparr>"
  have run: "?run = Inr (Inr ''msg-1'', snd (projr ?run))"
    by (simp add: eval_defs twoLocBatcher_def twoLocApi_def otherLoc_def)
  have sub: "submitted twoLocBatcher (snd (projr ?run)) = [(IDAddress 101, ?params)]"
    by (simp add: eval_defs twoLocBatcher_def twoLocApi_def otherLoc_def)
  have pos: "1 \<le> DeclarationsMax exampleConfig"
    by (simp add: exampleConfig_def)
  have more: "1 < length (Terminations ?params)"
    by simp
  from cap_compliance [OF run, of "IDAddress 101" ?params] sub pos more
  have first: "sectorBits (Terminations ?params) \<le> AddressedSectorsMax exampleConfig
     \<and> length (Terminations ?params) \<le> DeclarationsMax exampleConfig
     \<and> sectorBits (butlast (Terminations ?params)) < TerminateBatchMax exampleConfig"
    by simp
  have run0: "?runz = Inr (Inr ''msg-1'', snd (projr ?runz))"
    by (simp add: eval_defs)
  have sub0: "submitted exampleBatcher (snd (projr ?runz)) = [(IDAddress 101, ?paramsz)]"
    by (simp add: eval_defs)
  have zero: "DeclarationsMax ?cfgz = 0"
    by simp
  from cap_compliance [OF run0, of "IDAddress 101" ?paramsz] sub0 zero
  have second: "length (Terminations ?paramsz) = 1"
    by simp
  from run sub pos more first sub0 zero second show ?thesis
    by simp
qed

text \<open>
  The claim fails in two places. A batch that was not forced can have more than
  \<open>TerminateBatchMax\<close> sector bits: with \<open>TerminateBatchMax = 2\<close> and three pending
  sectors in one location, the notify event submits all three. And the declarations can
  be more than \<open>DeclarationsMax\<close>: with \<open>DeclarationsMax = 0\<close> the loop still appends one
  declaration before it compares, and the message has one.
\<close>

theorem cap_compliance_counterexample:
  "processBatch (exampleConfig\<lparr>TerminateBatchMax := 2\<rparr>) exampleApi [exampleLoc] exampleBatcher True False
     = Inr (Inr ''msg-1'',
            snd (projr (processBatch (exampleConfig\<lparr>TerminateBatchMax := 2\<rparr>) exampleApi [exampleLoc]
                          exampleBatcher True False)))
   \<and> submitted exampleBatcher
        (snd (projr (processBatch (exampleConfig\<lparr>TerminateBatchMax := 2\<rparr>) exampleApi [exampleLoc]
                          exampleBatcher True False)))
       = [(IDAddress 101, \<lparr>Terminations = [\<lparr>Deadline = 10, Partition = 0, Sectors = [1, 2, 3]\<rparr>]\<rparr>)]
   \<and> \<not> sectorBits [\<lparr>Deadline = 10, Partition = 0, Sectors = [1, 2, 3]\<rparr>]
         \<le> TerminateBatchMax (exampleConfig\<lparr>TerminateBatchMax := 2\<rparr>)
   \<and> processBatch (exampleConfig\<lparr>DeclarationsMax := 0\<rparr>) exampleApi [exampleLoc] exampleBatcher False False
     = Inr (Inr ''msg-1'',
            snd (projr (processBatch (exampleConfig\<lparr>DeclarationsMax := 0\<rparr>) exampleApi [exampleLoc]
                          exampleBatcher False False)))
   \<and> submitted exampleBatcher
        (snd (projr (processBatch (exampleConfig\<lparr>DeclarationsMax := 0\<rparr>) exampleApi [exampleLoc]
                          exampleBatcher False False)))
       = [(IDAddress 101, \<lparr>Terminations = [\<lparr>Deadline = 10, Partition = 0, Sectors = [1, 2, 3]\<rparr>]\<rparr>)]
   \<and> \<not> length [\<lparr>Deadline = 10 :: uint64, Partition = 0 :: uint64, Sectors = [1, 2, 3 :: nat]\<rparr>]
         \<le> DeclarationsMax (exampleConfig\<lparr>DeclarationsMax := 0\<rparr>)"
  by (simp add: eval_defs)

subsection \<open>Gating\<close>

text \<open>
  C5. Let the selection loop of an iteration of \<open>run\<close> end with the total \<open>tot\<close> and the
  declarations \<open>terms\<close>. With no declarations, processBatch returns the empty message id
  and no error, whatever the event; after a notify event with
  \<open>tot < TerminateBatchMax\<close>, and after a time tick with \<open>tot < TerminateBatchMin\<close>, it
  returns the same; in these cases \<open>MessagerSendMsg\<close> is not called. After a force event
  every non-empty selection goes on to the submission, which calls \<open>MessagerSendMsg\<close> with
  the selected declarations once the encoding, the miner info and the sender address are
  there.
\<close>

theorem gating:
  assumes "StateMinerProvingDeadline api (maddr b) = Inr dl"
    and "selectLoop cfg api (maddr b) dl order (todo b) 0 [] = Inr (td, tot, terms)"
  shows "(terms = [] \<longrightarrow> runIteration cfg api order b ev = Inr (Inr '''', b\<lparr>todo := td\<rparr>))
     \<and> (tot < TerminateBatchMax cfg \<longrightarrow>
          runIteration cfg api order b Notify = Inr (Inr '''', b\<lparr>todo := td\<rparr>))
     \<and> (tot < TerminateBatchMin cfg \<longrightarrow>
          runIteration cfg api order b Tick = Inr (Inr '''', b\<lparr>todo := td\<rparr>))
     \<and> submitted b (b\<lparr>todo := td\<rparr>) = []
     \<and> (terms \<noteq> [] \<longrightarrow>
          runIteration cfg api order b Force
            = Inr (sendBatch api (b\<lparr>todo := td\<rparr>) \<lparr>Terminations = terms\<rparr>))
     \<and> (\<forall>enc mi from. MarshalCBOR api \<lparr>Terminations = terms\<rparr> = Inr enc
            \<and> StateMinerInfo api (maddr b) = Inr mi \<and> addrSel api mi = Inr from \<longrightarrow>
          submitted b (snd (sendBatch api (b\<lparr>todo := td\<rparr>) \<lparr>Terminations = terms\<rparr>))
            = [(from, \<lparr>Terminations = terms\<rparr>)])"
proof -
  have sent: "\<And>enc mi from. MarshalCBOR api \<lparr>Terminations = terms\<rparr> = Inr enc \<Longrightarrow>
      StateMinerInfo api (maddr b) = Inr mi \<Longrightarrow> addrSel api mi = Inr from \<Longrightarrow>
      sent (snd (sendBatch api (b\<lparr>todo := td\<rparr>) \<lparr>Terminations = terms\<rparr>))
        = sent b @ [(from, \<lparr>Terminations = terms\<rparr>)]"
    by (auto simp: sendBatch_def Let_def dest: finishBatch_sent
        split: sum.splits prod.splits option.splits)
  show ?thesis
    using assms sent
    by (cases ev) (auto simp: runIteration_def processBatch_def Let_def submitted_def)
qed

theorem gating_witness:
  "runIteration (exampleConfig\<lparr>TerminateBatchMax := 100\<rparr>) exampleApi [exampleLoc] exampleBatcher Notify
     = Inr (Inr '''', exampleBatcher\<lparr>todo := todo exampleBatcher\<rparr>)
   \<and> runIteration (exampleConfig\<lparr>TerminateBatchMax := 100\<rparr>) exampleApi [exampleLoc] exampleBatcher Force
     = Inr (sendBatch exampleApi (exampleBatcher\<lparr>todo := todo exampleBatcher\<rparr>)
              \<lparr>Terminations = [\<lparr>Deadline = 10, Partition = 0, Sectors = [1, 2, 3]\<rparr>]\<rparr>)
   \<and> submitted exampleBatcher
        (snd (sendBatch exampleApi (exampleBatcher\<lparr>todo := todo exampleBatcher\<rparr>)
                \<lparr>Terminations = [\<lparr>Deadline = 10, Partition = 0, Sectors = [1, 2, 3]\<rparr>]\<rparr>))
       = [(IDAddress 101, \<lparr>Terminations = [\<lparr>Deadline = 10, Partition = 0, Sectors = [1, 2, 3]\<rparr>]\<rparr>)]"
proof -
  let ?cfg = "exampleConfig\<lparr>TerminateBatchMax := 100\<rparr>"
  have dl: "StateMinerProvingDeadline exampleApi (maddr exampleBatcher) = Inr \<lparr>Index = 0\<rparr>"
    by (simp add: exampleApi_def)
  have loop: "selectLoop ?cfg exampleApi (maddr exampleBatcher) \<lparr>Index = 0\<rparr> [exampleLoc]
      (todo exampleBatcher) 0 []
      = Inr (todo exampleBatcher, 3, [\<lparr>Deadline = 10, Partition = 0, Sectors = [1, 2, 3]\<rparr>])"
    by (simp add: eval_defs)
  have low: "3 < TerminateBatchMax ?cfg"
    by (simp add: exampleConfig_def)
  have enc: "MarshalCBOR exampleApi \<lparr>Terminations = [\<lparr>Deadline = 10, Partition = 0, Sectors = [1, 2, 3]\<rparr>]\<rparr>
      = Inr []"
    and mi: "StateMinerInfo exampleApi (maddr exampleBatcher)
      = Inr \<lparr>Owner = IDAddress 100, Worker = IDAddress 101\<rparr>"
    and sel: "addrSel exampleApi \<lparr>Owner = IDAddress 100, Worker = IDAddress 101\<rparr> = Inr (IDAddress 101)"
    by (simp_all add: exampleApi_def)
  from gating [OF dl loop, of Force] low enc mi sel show ?thesis
    by simp
qed

subsection \<open>AddTermination of a sector that is not live\<close>

text \<open>
  C6. When the chain view locates the sector and the sector's bit is not set in the
  \<open>LiveSectors\<close> bitfield of its partition, AddTermination returns the empty message id,
  \<open>true\<close> and no error, and the batcher is unchanged: \<open>todo\<close> and \<open>waiting\<close> are as
  before and no channel was made. A repeated call does the same.
\<close>

theorem already_terminated:
  assumes "NewIDAddress (Miner s) = Inr a"
    and "StateSectorPartition api a (Number s) = Inr (Some loc)"
    and "StateMinerPartitions api a (Deadline loc) = Inr parts"
    and "unat (Partition loc) < length parts"
    and "Number s \<notin> set (LiveSectors (parts ! unat (Partition loc)))"
  shows "AddTermination api b s = Inr (Returned '''' True None, b)
     \<and> AddTermination api (snd (projr (AddTermination api b s))) s = AddTermination api b s"
  using assms by (simp add: AddTermination_def IsSet_def)

theorem already_terminated_witness:
  "AddTermination exampleApi exampleBatcher \<lparr>Miner = 1000, Number = 7\<rparr>
     = Inr (Returned '''' True None, exampleBatcher)"
proof -
  have "NewIDAddress (Miner \<lparr>Miner = 1000, Number = 7\<rparr>) = Inr (IDAddress 1000)"
    by (simp add: NewIDAddress_def)
  moreover have "StateSectorPartition exampleApi (IDAddress 1000) (Number \<lparr>Miner = 1000, Number = 7\<rparr>)
      = Inr (Some exampleLoc)"
    by (simp add: exampleApi_def)
  moreover have "StateMinerPartitions exampleApi (IDAddress 1000) (Deadline exampleLoc)
      = Inr [\<lparr>LiveSectors = [1, 2, 3]\<rparr>]"
    by (simp add: exampleApi_def)
  moreover have "unat (Partition exampleLoc) < length [\<lparr>LiveSectors = [1, 2, 3 :: nat]\<rparr>]"
    by (simp add: exampleLoc_def)
  moreover have "Number \<lparr>Miner = 1000, Number = 7\<rparr>
      \<notin> set (LiveSectors ([\<lparr>LiveSectors = [1, 2, 3]\<rparr>] ! unat (Partition exampleLoc)))"
    by (simp add: exampleLoc_def)
  ultimately show ?thesis
    using already_terminated [of "\<lparr>Miner = 1000, Number = 7\<rparr>" "IDAddress 1000" exampleApi
        exampleLoc "[\<lparr>LiveSectors = [1, 2, 3]\<rparr>]" exampleBatcher]
    by simp
qed

subsection \<open>The unchecked partition index\<close>

text \<open>
  The index \<open>ps[loc.Partition]\<close> of processBatch and \<open>parts[loc.Partition]\<close> of
  AddTermination is not checked: the loop body and AddTermination panic exactly when the
  access is reached with a partition index that is not below the length of the list.
\<close>

lemma selectLocation_panics_iff:
  "selectLocation cfg api m dl tot loc sectors = Panicked IndexOutOfRange \<longleftrightarrow>
     WPoStPeriodDeadlines cfg \<noteq> 0 \<and> \<not> challenged (WPoStPeriodDeadlines cfg) loc dl \<and> sectors \<noteq> []
     \<and> (\<exists>ps. StateMinerPartitions api m (Deadline loc) = Inr ps \<and> length ps \<le> unat (Partition loc))"
  by (auto simp: selectLocation_def Count_def Copy_def IntersectBitField_def Slice_def
      SubtractBitField_def Let_def split: sum.splits)

lemma AddTermination_panics_iff:
  "AddTermination api b s = Inl p \<longleftrightarrow>
     p = IndexOutOfRange
     \<and> (\<exists>a loc ps. NewIDAddress (Miner s) = Inr a
           \<and> StateSectorPartition api a (Number s) = Inr (Some loc)
           \<and> StateMinerPartitions api a (Deadline loc) = Inr ps
           \<and> length ps \<le> unat (Partition loc))"
  by (auto simp: AddTermination_def IsSet_def Let_def split: sum.splits option.splits)

lemma selectLoop_in_range:
  assumes "\<forall>loc ps. loc \<in> dom td \<longrightarrow> StateMinerPartitions api m (Deadline loc) = Inr ps
      \<longrightarrow> unat (Partition loc) < length ps"
  shows "selectLoop cfg api m dl locs td tot terms \<noteq> Inl IndexOutOfRange"
  using assms
proof (induction locs arbitrary: td tot terms)
  case Nil
  then show ?case by simp
next
  case (Cons loc locs)
  show ?case
  proof (cases "td loc")
    case None
    with Cons show ?thesis by simp
  next
    case (Some sectors)
    then have dom: "loc \<in> dom td" by auto
    show ?thesis
    proof (cases "selectLocation cfg api m dl tot loc sectors")
      case Continue
      with Some Cons show ?thesis by simp
    next
      case (Panicked p)
      with Cons.prems dom selectLocation_panics_iff [of cfg api m dl tot loc sectors]
      have "p \<noteq> IndexOutOfRange"
        by (auto simp: not_le)
      with Some Panicked show ?thesis by simp
    next
      case (Selected s n tt)
      from dom have "dom (td(loc \<mapsto> s)) = dom td" by auto
      with Cons.prems have "\<forall>l ps. l \<in> dom (td(loc \<mapsto> s)) \<longrightarrow>
          StateMinerPartitions api m (Deadline l) = Inr ps \<longrightarrow> unat (Partition l) < length ps"
        by simp
      then have "selectLoop cfg api m dl locs (td(loc \<mapsto> s)) (tot + n)
          (terms @ [\<lparr>Deadline = Deadline loc, Partition = Partition loc, Sectors = tt\<rparr>])
          \<noteq> Inl IndexOutOfRange"
        by (rule Cons.IH)
      with Some Selected show ?thesis
        by (simp add: Let_def)
    qed
  qed
qed

text \<open>
  C10. If every location stored in \<open>todo\<close>, and every location \<open>StateSectorPartition\<close>
  returns for the sector, has a partition index below the length of the list that
  \<open>StateMinerPartitions\<close> returns for its deadline, then neither processBatch nor
  AddTermination panics on the index.
\<close>

theorem partition_index_in_range:
  assumes "\<forall>loc ps. loc \<in> dom (todo b) \<longrightarrow> StateMinerPartitions api (maddr b) (Deadline loc) = Inr ps
      \<longrightarrow> unat (Partition loc) < length ps"
    and "\<forall>a loc ps. StateSectorPartition api a (Number s) = Inr (Some loc)
      \<longrightarrow> StateMinerPartitions api a (Deadline loc) = Inr ps \<longrightarrow> unat (Partition loc) < length ps"
  shows "processBatch cfg api order b notif after \<noteq> Inl IndexOutOfRange
     \<and> AddTermination api b s \<noteq> Inl IndexOutOfRange"
proof
  show "processBatch cfg api order b notif after \<noteq> Inl IndexOutOfRange"
    using selectLoop_in_range [OF assms(1), of cfg _ order 0 "[]"]
    by (auto simp: processBatch_def Let_def split: sum.splits prod.splits)
  show "AddTermination api b s \<noteq> Inl IndexOutOfRange"
    using assms(2) by (auto simp: AddTermination_panics_iff not_le)
qed

theorem partition_index_in_range_witness:
  "processBatch exampleConfig exampleApi [exampleLoc] exampleBatcher False False \<noteq> Inl IndexOutOfRange
   \<and> AddTermination exampleApi exampleBatcher \<lparr>Miner = 1000, Number = 7\<rparr> \<noteq> Inl IndexOutOfRange"
proof -
  have "dom (todo exampleBatcher) = {exampleLoc}"
    by (simp add: eval_defs)
  then have stored: "\<forall>loc ps. loc \<in> dom (todo exampleBatcher) \<longrightarrow>
      StateMinerPartitions exampleApi (maddr exampleBatcher) (Deadline loc) = Inr ps \<longrightarrow>
      unat (Partition loc) < length ps"
    by (auto simp: exampleApi_def exampleLoc_def)
  have looked_up: "\<forall>a loc ps.
      StateSectorPartition exampleApi a (Number \<lparr>Miner = 1000, Number = 7\<rparr>) = Inr (Some loc) \<longrightarrow>
      StateMinerPartitions exampleApi a (Deadline loc) = Inr ps \<longrightarrow> unat (Partition loc) < length ps"
    by (auto simp: exampleApi_def exampleLoc_def)
  from partition_index_in_range [OF stored looked_up] show ?thesis .
qed

subsection \<open>Pending\<close>

lemma collectPending_eq:
  "collectPending locs td mid res = Inr (res @ concat (map (pendingOf td mid) locs))"
  by (induction locs arbitrary: res) (auto simp: pendingOf_def ForEach_def split: option.splits)

lemma sorted_sectorKey:
  assumes "sorted (map sectorKey xs)"
  shows "sorted_wrt (\<lambda>x y. Miner x < Miner y \<or> (Miner x = Miner y \<and> Number x \<le> Number y)) xs"
proof -
  have "sorted_wrt (\<lambda>x y. sectorKey x \<le> sectorKey y) xs"
    using assms by (simp add: sorted_map)
  then show ?thesis
    by (rule sorted_wrt_mono_rel [rotated]) (auto simp: sectorKey_def less_eq_prod_def)
qed

text \<open>
  C8. For a batcher bound to an ID address with actor id \<open>mid\<close>, and whatever the order in
  which the keys of \<open>todo\<close> are visited, Pending returns without error and leaves the
  batcher as it is; the result holds exactly the sector ids \<open>(mid, n)\<close> for the bits
  \<open>n\<close> set in the bitfields of \<open>todo\<close>, one entry for every set bit, sorted by miner and
  then by sector number.
\<close>

theorem Pending_reflects_todo:
  assumes "IDFromAddress (maddr b) = Inr mid"
    and "distinct order" and "set order = dom (todo b)"
  shows "\<exists>res. Pending order b = (Inr res, b)
     \<and> set res = {\<lparr>Miner = mid, Number = n\<rparr> | n loc bf. todo b loc = Some bf \<and> n \<in> set bf}
     \<and> length res = (\<Sum>loc\<in>dom (todo b). length (the (todo b loc)))
     \<and> sorted_wrt (\<lambda>x y. Miner x < Miner y \<or> (Miner x = Miner y \<and> Number x \<le> Number y)) res"
proof -
  let ?all = "concat (map (pendingOf (todo b) mid) order)"
  let ?res = "sort_key sectorKey ?all"
  have run: "Pending order b = (Inr ?res, b)"
    using assms(1) by (simp add: Pending_def collectPending_eq)
  have "set ?all = {\<lparr>Miner = mid, Number = n\<rparr> | n loc bf. todo b loc = Some bf \<and> n \<in> set bf}"
    using assms(3) by (auto simp: pendingOf_def split: option.splits) force
  then have elems: "set ?res = {\<lparr>Miner = mid, Number = n\<rparr> | n loc bf. todo b loc = Some bf \<and> n \<in> set bf}"
    by simp
  have "length ?all = sum_list (map (\<lambda>loc. length (the (todo b loc))) order)"
    using assms(3)
    by (auto simp: length_concat comp_def pendingOf_def intro!: arg_cong [where f = sum_list]
        split: option.splits)
  also have "\<dots> = (\<Sum>loc\<in>set order. length (the (todo b loc)))"
    using assms(2) by (simp add: sum_list_distinct_conv_sum_set)
  finally have len: "length ?res = (\<Sum>loc\<in>dom (todo b). length (the (todo b loc)))"
    using assms(3) by simp
  have "sorted (map sectorKey ?res)"
    by simp
  then have "sorted_wrt (\<lambda>x y. Miner x < Miner y \<or> (Miner x = Miner y \<and> Number x \<le> Number y)) ?res"
    by (rule sorted_sectorKey)
  with run elems len show ?thesis by blast
qed

theorem Pending_reflects_todo_witness:
  "IDFromAddress (maddr exampleBatcher) = Inr 1000
   \<and> distinct [exampleLoc] \<and> set [exampleLoc] = dom (todo exampleBatcher)
   \<and> Pending [exampleLoc] exampleBatcher
       = (Inr [\<lparr>Miner = 1000, Number = 1\<rparr>, \<lparr>Miner = 1000, Number = 2\<rparr>, \<lparr>Miner = 1000, Number = 3\<rparr>],
          exampleBatcher)"
proof -
  have addr: "IDFromAddress (maddr exampleBatcher) = Inr 1000"
    by (simp add: eval_defs IDFromAddress_def)
  have keys: "set [exampleLoc] = dom (todo exampleBatcher)"
    by (simp add: eval_defs)
  have "distinct [exampleLoc]"
    by simp
  from Pending_reflects_todo [OF addr this keys] obtain res
    where "Pending [exampleLoc] exampleBatcher = (Inr res, exampleBatcher)"
    by blast
  moreover have "fst (Pending [exampleLoc] exampleBatcher)
      = Inr [\<lparr>Miner = 1000, Number = 1\<rparr>, \<lparr>Miner = 1000, Number = 2\<rparr>, \<lparr>Miner = 1000, Number = 3\<rparr>]"
    by (simp add: eval_defs IDFromAddress_def Pending_def sectorKey_def)
  ultimately show ?thesis
    using addr keys by simp
qed

subsection \<open>Delivery to the waiters\<close>

lemma sendAll_apply:
  "distinct chs \<Longrightarrow> sendAll chs mcid cs c = (if c \<in> set chs then cs c @ [mcid] else cs c)"
  by (induction chs arbitrary: cs) auto

lemma waitersOk_notify:
  assumes ok: "waitersOk w cs n"
  shows "waitersOk (w(sn := None)) (sendAll (case w sn of None \<Rightarrow> [] | Some chs \<Rightarrow> chs) mcid cs) n"
proof (cases "w sn")
  case None
  then have "w(sn := None) = w" by auto
  with None ok show ?thesis by simp
next
  case (Some chs)
  from ok Some have d: "distinct chs" and fresh: "\<forall>c\<in>set chs. c < n \<and> cs c = []"
    by (auto simp: waitersOk_def)
  have other: "\<And>sn' chs' c. sn' \<noteq> sn \<Longrightarrow> w sn' = Some chs' \<Longrightarrow> c \<in> set chs' \<Longrightarrow> c \<notin> set chs"
    using ok Some unfolding waitersOk_def by blast
  let ?cs = "sendAll chs mcid cs"
  have app: "\<And>c. ?cs c = (if c \<in> set chs then cs c @ [mcid] else cs c)"
    using d by (rule sendAll_apply)
  have 1: "\<forall>c. length (?cs c) \<le> 1"
    using ok fresh by (auto simp: app waitersOk_def)
  have 2: "\<forall>c. n \<le> c \<longrightarrow> ?cs c = []"
    using ok fresh by (fastforce simp: app waitersOk_def)
  have 3: "\<forall>sn' chs'. (w(sn := None)) sn' = Some chs' \<longrightarrow>
      distinct chs' \<and> (\<forall>c\<in>set chs'. c < n \<and> ?cs c = [])"
  proof (intro allI impI)
    fix sn' chs'
    assume "(w(sn := None)) sn' = Some chs'"
    then have ne: "sn' \<noteq> sn" and w: "w sn' = Some chs'"
      by (auto split: if_splits)
    from ok w have "distinct chs'" and "\<forall>c\<in>set chs'. c < n \<and> cs c = []"
      by (auto simp: waitersOk_def)
    with other [OF ne w] show "distinct chs' \<and> (\<forall>c\<in>set chs'. c < n \<and> ?cs c = [])"
      by (simp add: app)
  qed
  have 4: "\<forall>s1 s2 chs1 chs2. s1 \<noteq> s2 \<longrightarrow> (w(sn := None)) s1 = Some chs1 \<longrightarrow>
      (w(sn := None)) s2 = Some chs2 \<longrightarrow> set chs1 \<inter> set chs2 = {}"
  proof (intro allI impI)
    fix s1 s2 chs1 chs2
    assume "s1 \<noteq> s2" and "(w(sn := None)) s1 = Some chs1" and "(w(sn := None)) s2 = Some chs2"
    then have "s1 \<noteq> s2" "w s1 = Some chs1" "w s2 = Some chs2"
      by (auto split: if_splits)
    with ok show "set chs1 \<inter> set chs2 = {}"
      unfolding waitersOk_def by blast
  qed
  from 1 2 3 4 Some show ?thesis
    by (simp add: waitersOk_def)
qed

lemma waitersOk_notifySectors:
  "waitersOk w cs n \<Longrightarrow> notifySectors sns mcid w cs = (w', cs') \<Longrightarrow> waitersOk w' cs' n"
proof (induction sns arbitrary: w cs)
  case Nil
  then show ?case by simp
next
  case (Cons sn sns)
  from Cons.prems(2) have
    "notifySectors sns mcid (w(sn := None))
       (sendAll (case w sn of None \<Rightarrow> [] | Some chs \<Rightarrow> chs) mcid cs) = (w', cs')"
    by simp
  from Cons.IH [OF waitersOk_notify [OF Cons.prems(1)] this] show ?case .
qed

lemma waitersOk_finishBatch:
  "waitersOk (waiting b) (chans b) (nchan b) \<Longrightarrow> finishBatch ts mcid b = (e, b') \<Longrightarrow>
   waitersOk (waiting b') (chans b') (nchan b')"
proof (induction ts arbitrary: b)
  case Nil
  then show ?case by simp
next
  case (Cons t ts)
  let ?b1 = "b\<lparr>todo := (todo b)(\<lparr>Deadline = Deadline t, Partition = Partition t\<rparr> := None)\<rparr>"
  obtain w cs where n: "notifySectors (Sectors t) mcid (waiting b) (chans b) = (w, cs)"
    by (cases "notifySectors (Sectors t) mcid (waiting b) (chans b)") auto
  from waitersOk_notifySectors [OF Cons.prems(1) n]
  have ok: "waitersOk (waiting (?b1\<lparr>waiting := w, chans := cs\<rparr>)) (chans (?b1\<lparr>waiting := w, chans := cs\<rparr>))
      (nchan (?b1\<lparr>waiting := w, chans := cs\<rparr>))"
    by simp
  from Cons.prems(2) n have "finishBatch ts mcid (?b1\<lparr>waiting := w, chans := cs\<rparr>) = (e, b')"
    by (simp add: Let_def ForEach_def)
  from Cons.IH [OF ok this] show ?case .
qed

lemma waitersOk_sendBatch:
  assumes "waitersOk (waiting b) (chans b) (nchan b)" and "sendBatch api b params = (r, b')"
  shows "waitersOk (waiting b') (chans b') (nchan b')"
proof -
  have step: "waitersOk (waiting b2) (chans b2) (nchan b2)"
    if "finishBatch (Terminations params) mcid (b\<lparr>sent := sent b @ [(from, params)]\<rparr>) = (e, b2)"
    for "from" mcid e b2
  proof -
    let ?b1 = "b\<lparr>sent := sent b @ [(from, params)]\<rparr>"
    from assms(1) have "waitersOk (waiting ?b1) (chans ?b1) (nchan ?b1)" by simp
    from waitersOk_finishBatch [OF this that] show ?thesis .
  qed
  from assms show ?thesis
    by (auto simp: sendBatch_def Let_def dest: step split: sum.splits prod.splits option.splits)
qed

lemma waitersOk_processBatch:
  assumes "waitersOk (waiting b) (chans b) (nchan b)"
    and "processBatch cfg api order b notif after = Inr (r, b')"
  shows "waitersOk (waiting b') (chans b') (nchan b')"
proof -
  have step: "waitersOk (waiting b') (chans b') (nchan b')"
    if "sendBatch api (b\<lparr>todo := td\<rparr>) \<lparr>Terminations = terms\<rparr> = (r, b')" for td terms
  proof -
    let ?b1 = "b\<lparr>todo := td\<rparr>"
    from assms(1) have "waitersOk (waiting ?b1) (chans ?b1) (nchan ?b1)" by simp
    from waitersOk_sendBatch [OF this that] show ?thesis .
  qed
  from assms show ?thesis
    by (auto simp: processBatch_def Let_def dest: step split: sum.splits prod.splits if_splits)
qed

lemma waitersOk_AddTermination:
  assumes ok: "waitersOk (waiting b) (chans b) (nchan b)"
    and "AddTermination api b s = Inr (r, b')"
  shows "waitersOk (waiting b') (chans b') (nchan b')"
proof (cases "b' = b")
  case True
  with ok show ?thesis by simp
next
  case False
  let ?sn = "Number s"
  let ?old = "case waiting b ?sn of None \<Rightarrow> [] | Some chs \<Rightarrow> chs"
  from False assms(2) have w: "waiting b' = (waiting b)(?sn \<mapsto> ?old @ [nchan b])"
    and cs: "chans b' = (chans b)(nchan b := [])" and n: "nchan b' = nchan b + 1"
    by (auto simp: AddTermination_def Let_def IsSet_def split: sum.splits option.splits if_splits)
  have old: "distinct ?old \<and> (\<forall>c\<in>set ?old. c < nchan b \<and> chans b c = [])"
    using ok by (auto simp: waitersOk_def split: option.splits)
  have lists: "\<And>sn chs. waiting b sn = Some chs \<Longrightarrow>
      distinct chs \<and> (\<forall>c\<in>set chs. c < nchan b \<and> chans b c = [])"
    using ok by (auto simp: waitersOk_def)
  have disj: "\<And>s1 s2 chs1 chs2. s1 \<noteq> s2 \<Longrightarrow> waiting b s1 = Some chs1 \<Longrightarrow>
      waiting b s2 = Some chs2 \<Longrightarrow> set chs1 \<inter> set chs2 = {}"
    using ok unfolding waitersOk_def by blast
  have 1: "\<forall>c. length (chans b' c) \<le> 1"
    using ok by (simp add: cs waitersOk_def)
  have 2: "\<forall>c. nchan b' \<le> c \<longrightarrow> chans b' c = []"
    using ok by (simp add: cs n waitersOk_def)
  have 3: "\<forall>sn chs. waiting b' sn = Some chs \<longrightarrow>
      distinct chs \<and> (\<forall>c\<in>set chs. c < nchan b' \<and> chans b' c = [])"
  proof (intro allI impI)
    fix sn chs
    assume a: "waiting b' sn = Some chs"
    show "distinct chs \<and> (\<forall>c\<in>set chs. c < nchan b' \<and> chans b' c = [])"
    proof (cases "sn = ?sn")
      case True
      with a w have "chs = ?old @ [nchan b]" by simp
      with old show ?thesis by (auto simp: cs n)
    next
      case False
      with a w have "waiting b sn = Some chs" by simp
      from lists [OF this] show ?thesis by (auto simp: cs n)
    qed
  qed
  have 4: "\<forall>s1 s2 chs1 chs2. s1 \<noteq> s2 \<longrightarrow> waiting b' s1 = Some chs1 \<longrightarrow>
      waiting b' s2 = Some chs2 \<longrightarrow> set chs1 \<inter> set chs2 = {}"
  proof (intro allI impI)
    fix s1 s2 chs1 chs2
    assume ne: "s1 \<noteq> s2" and a1: "waiting b' s1 = Some chs1" and a2: "waiting b' s2 = Some chs2"
    have key: "\<And>sa sb ca cb. sa \<noteq> ?sn \<Longrightarrow> sb = ?sn \<Longrightarrow> waiting b' sa = Some ca \<Longrightarrow>
        waiting b' sb = Some cb \<Longrightarrow> set ca \<inter> set cb = {}"
    proof -
      fix sa sb ca cb
      assume sa: "sa \<noteq> ?sn" and sb: "sb = ?sn" and wa: "waiting b' sa = Some ca"
        and wb: "waiting b' sb = Some cb"
      from sa wa w have wa': "waiting b sa = Some ca" by simp
      from sb wb w have cb: "cb = ?old @ [nchan b]" by simp
      from lists [OF wa'] have "nchan b \<notin> set ca" by auto
      moreover have "set ca \<inter> set ?old = {}"
        using disj [OF sa wa'] by (cases "waiting b ?sn") auto
      ultimately show "set ca \<inter> set cb = {}"
        using cb by auto
    qed
    show "set chs1 \<inter> set chs2 = {}"
    proof (cases "s1 = ?sn")
      case True
      with ne have "s2 \<noteq> ?sn" by simp
      from key [OF this True a2 a1] show ?thesis by auto
    next
      case s1: False
      show ?thesis
      proof (cases "s2 = ?sn")
        case True
        from key [OF s1 True a1 a2] show ?thesis .
      next
        case False
        with s1 a1 a2 w have "waiting b s1 = Some chs1" "waiting b s2 = Some chs2" by simp_all
        from disj [OF ne this] show ?thesis .
      qed
    qed
  qed
  from 1 2 3 4 show ?thesis
    by (simp add: waitersOk_def)
qed

lemma reachable_waitersOk:
  "reachable b \<Longrightarrow> waitersOk (waiting b) (chans b) (nchan b)"
proof (induction rule: reachable.induct)
  case (new a)
  show ?case by (simp add: NewTerminationBatcher_def waitersOk_def)
next
  case (add b api s r b')
  then show ?case by (auto intro: waitersOk_AddTermination)
next
  case (batch b cfg api order notif after res b')
  then show ?case by (auto intro: waitersOk_processBatch)
qed

lemma notifySectors_waiting:
  "notifySectors sns mcid w cs = (w', cs') \<Longrightarrow> w' sn = (if sn \<in> set sns then None else w sn)"
  by (induction sns arbitrary: w cs) (auto split: if_splits)

lemma finishBatch_waiting:
  "finishBatch ts mcid b = (e, b') \<Longrightarrow>
   waiting b' sn = (if \<exists>t\<in>set ts. sn \<in> set (Sectors t) then None else waiting b sn)"
proof (induction ts arbitrary: b)
  case Nil
  then show ?case by simp
next
  case (Cons t ts)
  let ?b1 = "b\<lparr>todo := (todo b)(\<lparr>Deadline = Deadline t, Partition = Partition t\<rparr> := None)\<rparr>"
  obtain w cs where n: "notifySectors (Sectors t) mcid (waiting b) (chans b) = (w, cs)"
    by (cases "notifySectors (Sectors t) mcid (waiting b) (chans b)") auto
  from Cons.prems n have "finishBatch ts mcid (?b1\<lparr>waiting := w, chans := cs\<rparr>) = (e, b')"
    by (simp add: Let_def ForEach_def)
  from Cons.IH [OF this] notifySectors_waiting [OF n, of sn] show ?case
    by auto
qed

lemma sendBatch_deletes_waiters:
  assumes "sendBatch api b params = (Inr mcid, b')"
    and "t \<in> set (Terminations params)" and "sn \<in> set (Sectors t)"
  shows "waiting b' sn = None"
proof -
  from assms(1) obtain b1 e where "finishBatch (Terminations params) mcid b1 = (e, b')"
    by (auto simp: sendBatch_def Let_def split: sum.splits prod.splits option.splits)
  from finishBatch_waiting [OF this, of sn] assms(2,3) show ?thesis
    by auto
qed

lemma processBatch_deletes_waiters:
  assumes "processBatch cfg api order b notif after = Inr (Inr mcid, b')"
    and "(from, params) \<in> set (submitted b b')"
    and "t \<in> set (Terminations params)" and "sn \<in> set (Sectors t)"
  shows "waiting b' sn = None"
proof -
  from processBatch_submitted [OF assms(1,2)] obtain dl td tot where
    dl: "StateMinerProvingDeadline api (maddr b) = Inr dl"
    and loop: "selectLoop cfg api (maddr b) dl order (todo b) 0 [] = Inr (td, tot, Terminations params)"
    and gate: "Terminations params \<noteq> []" "\<not> (notif \<and> tot < TerminateBatchMax cfg)"
      "\<not> (after \<and> tot < TerminateBatchMin cfg)"
    by blast
  from assms(1) dl loop gate
  have "sendBatch api (b\<lparr>todo := td\<rparr>) \<lparr>Terminations = Terminations params\<rparr> = (Inr mcid, b')"
    by (auto simp: processBatch_def Let_def split: if_splits)
  from sendBatch_deletes_waiters [OF this, of t sn] assms(3,4) show ?thesis
    by simp
qed

lemma reachable_enrolled: "reachable b \<Longrightarrow> reachable (enrolled api b s)"
  by (cases "AddTermination api b s") (auto simp: enrolled_def intro: reachable.add)

lemma reachable_exampleBatcher: "reachable exampleBatcher"
  unfolding exampleBatcher_def
  by (intro reachable_enrolled reachable.new)

text \<open>
  C7. In every batcher that can arise, no channel has been sent more than one message id.
  The channels of a waiter list are distinct and have been sent nothing, and the waiter
  lists of two sector numbers share no channel: a channel is held once, under one sector
  number. And when processBatch has submitted a message, the key of every sector of the
  submitted declarations is deleted from \<open>waiting\<close>, so the waiters that were sent the
  message id are not sent another.
\<close>

theorem no_double_delivery:
  assumes "reachable b"
  shows "(\<forall>c. length (chans b c) \<le> 1)
     \<and> (\<forall>sn chs. waiting b sn = Some chs \<longrightarrow> distinct chs \<and> (\<forall>c\<in>set chs. chans b c = []))
     \<and> (\<forall>sn sn' chs chs'. sn \<noteq> sn' \<longrightarrow> waiting b sn = Some chs \<longrightarrow> waiting b sn' = Some chs'
           \<longrightarrow> set chs \<inter> set chs' = {})
     \<and> (\<forall>cfg (api :: Collaborators) order notif after mcid b' from params t sn.
           processBatch cfg api order b notif after = Inr (Inr mcid, b') \<longrightarrow>
           (from, params) \<in> set (submitted b b') \<longrightarrow> t \<in> set (Terminations params) \<longrightarrow>
           sn \<in> set (Sectors t) \<longrightarrow> waiting b' sn = None)"
proof -
  from reachable_waitersOk [OF assms]
  have inv: "(\<forall>c. length (chans b c) \<le> 1)
     \<and> (\<forall>sn chs. waiting b sn = Some chs \<longrightarrow> distinct chs \<and> (\<forall>c\<in>set chs. chans b c = []))
     \<and> (\<forall>sn sn' chs chs'. sn \<noteq> sn' \<longrightarrow> waiting b sn = Some chs \<longrightarrow> waiting b sn' = Some chs'
           \<longrightarrow> set chs \<inter> set chs' = {})"
    unfolding waitersOk_def by blast
  have del: "\<forall>cfg (api :: Collaborators) order notif after mcid b' from params t sn.
      processBatch cfg api order b notif after = Inr (Inr mcid, b') \<longrightarrow>
      (from, params) \<in> set (submitted b b') \<longrightarrow> t \<in> set (Terminations params) \<longrightarrow>
      sn \<in> set (Sectors t) \<longrightarrow> waiting b' sn = None"
    by (intro allI impI) (rule processBatch_deletes_waiters)
  from inv del show ?thesis
    by (intro conjI) (elim conjE, assumption)+
qed

theorem no_double_delivery_witness:
  "reachable afterFirstBatch
   \<and> chans afterFirstBatch 0 = [''msg-1''] \<and> length (chans afterFirstBatch 0) \<le> 1
   \<and> waiting afterFirstBatch 1 = None
   \<and> waiting afterFirstBatch 3 = Some [2] \<and> chans afterFirstBatch 2 = []"
proof -
  have "processBatch cappedConfig exampleApi [exampleLoc] exampleBatcher True False
      = Inr (Inr ''msg-1'', afterFirstBatch)"
    by (simp add: eval_defs cappedConfig_def afterFirstBatch_def)
  with reachable_exampleBatcher have r: "reachable afterFirstBatch"
    by (rule reachable.batch)
  have "chans afterFirstBatch 0 = [''msg-1'']" and "waiting afterFirstBatch 1 = None"
    and "waiting afterFirstBatch 3 = Some [2]" and "chans afterFirstBatch 2 = []"
    by (simp_all add: eval_defs cappedConfig_def afterFirstBatch_def)
  with r no_double_delivery [OF r] show ?thesis
    by simp
qed

subsection \<open>The cap enforcement and the pending state\<close>

text \<open>
  What the loop body selects. Below the cap the whole pending bitfield is counted and the
  entry of \<open>todo\<close> is left as it is; above it, the first \<open>AddressedSectorsMax - total\<close>
  bits of the live pending sectors are declared and subtracted from the entry of \<open>todo\<close>.
  After a submission the location of every declaration is deleted from \<open>todo\<close>. When
  processBatch returns an error the waiters are as before, and so is \<open>todo\<close> provided
  no pending bitfield can reach the cap.
\<close>

lemma selectLocation_whole:
  assumes "selectLocation cfg api m dl tot loc sectors = Selected s n tt"
    and "tot + length sectors \<le> AddressedSectorsMax cfg"
  shows "s = sectors \<and> n = length sectors"
  using assms
  by (auto simp: selectLocation_def Count_def Copy_def IntersectBitField_def Slice_def
      SubtractBitField_def Let_def split: if_splits sum.splits)

lemma selectLocation_cap_enforcement:
  assumes "selectLocation cfg api m dl tot loc sectors = Selected s n tt"
    and "tot + length sectors > AddressedSectorsMax cfg"
  shows "n = AddressedSectorsMax cfg - tot \<and> length tt = n
     \<and> (\<exists>ps. StateMinerPartitions api m (Deadline loc) = Inr ps
           \<and> tt = take n (filter (\<lambda>i. i \<in> set (LiveSectors (ps ! unat (Partition loc)))) sectors))
     \<and> s = filter (\<lambda>i. i \<notin> set tt) sectors"
  using assms
  by (auto simp: selectLocation_def Count_def Copy_def IntersectBitField_def Slice_def
      SubtractBitField_def Let_def split: if_splits sum.splits)

lemma finishBatch_todo:
  "finishBatch ts mcid b = (e, b') \<Longrightarrow>
   todo b' loc = (if \<exists>t\<in>set ts. Deadline t = Deadline loc \<and> Partition t = Partition loc
                  then None else todo b loc)"
proof (induction ts arbitrary: b)
  case Nil
  then show ?case by simp
next
  case (Cons t ts)
  let ?b1 = "b\<lparr>todo := (todo b)(\<lparr>Deadline = Deadline t, Partition = Partition t\<rparr> := None)\<rparr>"
  obtain w cs where n: "notifySectors (Sectors t) mcid (waiting b) (chans b) = (w, cs)"
    by (cases "notifySectors (Sectors t) mcid (waiting b) (chans b)") auto
  from Cons.prems n have "finishBatch ts mcid (?b1\<lparr>waiting := w, chans := cs\<rparr>) = (e, b')"
    by (simp add: Let_def ForEach_def)
  from Cons.IH [OF this] show ?case
    by (cases loc) auto
qed

lemma processBatch_deletes_locations:
  assumes "processBatch cfg api order b notif after = Inr (Inr mcid, b')"
    and "(from, params) \<in> set (submitted b b')"
    and "t \<in> set (Terminations params)"
  shows "todo b' \<lparr>Deadline = Deadline t, Partition = Partition t\<rparr> = None"
proof -
  from processBatch_submitted [OF assms(1,2)] obtain dl td tot where
    dl: "StateMinerProvingDeadline api (maddr b) = Inr dl"
    and loop: "selectLoop cfg api (maddr b) dl order (todo b) 0 [] = Inr (td, tot, Terminations params)"
    and gate: "Terminations params \<noteq> []" "\<not> (notif \<and> tot < TerminateBatchMax cfg)"
      "\<not> (after \<and> tot < TerminateBatchMin cfg)"
    by blast
  from assms(1) dl loop gate
  have "sendBatch api (b\<lparr>todo := td\<rparr>) \<lparr>Terminations = Terminations params\<rparr> = (Inr mcid, b')"
    by (auto simp: processBatch_def Let_def split: if_splits)
  then obtain b1 e where "finishBatch (Terminations params) mcid b1 = (e, b')"
    by (auto simp: sendBatch_def Let_def split: sum.splits prod.splits option.splits)
  from finishBatch_todo [OF this, of "\<lparr>Deadline = Deadline t, Partition = Partition t\<rparr>"] assms(3)
  show ?thesis by auto
qed

lemma finishBatch_no_error: "finishBatch ts mcid b = (e, b') \<Longrightarrow> e = None"
proof (induction ts arbitrary: b)
  case Nil
  then show ?case by simp
next
  case (Cons t ts)
  then show ?case
    by (fastforce simp: Let_def ForEach_def split: prod.splits)
qed

lemma sendBatch_error:
  assumes "sendBatch api b params = (Inl e, b')"
  shows "todo b' = todo b \<and> waiting b' = waiting b \<and> chans b' = chans b \<and> nchan b' = nchan b"
  using assms
  by (auto simp: sendBatch_def Let_def dest: finishBatch_no_error
      split: sum.splits prod.splits option.splits)

lemma processBatch_error_keeps_waiters:
  assumes "processBatch cfg api order b notif after = Inr (Inl e, b')"
  shows "waiting b' = waiting b \<and> chans b' = chans b \<and> nchan b' = nchan b"
proof -
  have "waiting b' = waiting b \<and> chans b' = chans b \<and> nchan b' = nchan b"
    if "sendBatch api (b\<lparr>todo := td\<rparr>) \<lparr>Terminations = terms\<rparr> = (Inl e, b')" for td terms
    using sendBatch_error [OF that] by simp
  with assms show ?thesis
    by (auto simp: processBatch_def Let_def split: sum.splits prod.splits if_splits)
qed

lemma selectLoop_todo_unchanged:
  "selectLoop cfg api m dl locs td tot terms = Inr (td', tot', terms') \<Longrightarrow>
   \<forall>loc sectors. td loc = Some sectors \<longrightarrow>
     length sectors \<le> AddressedSectorsMax cfg
     \<and> length sectors + TerminateBatchMax cfg \<le> AddressedSectorsMax cfg + 1 \<Longrightarrow>
   tot = 0 \<or> tot < TerminateBatchMax cfg \<Longrightarrow> td' = td"
proof (induction locs arbitrary: tot terms)
  case Nil
  then show ?case by simp
next
  case (Cons loc locs)
  show ?case
  proof (cases "td loc")
    case None
    with Cons show ?thesis by simp
  next
    case (Some sectors)
    show ?thesis
    proof (cases "selectLocation cfg api m dl tot loc sectors")
      case Continue
      with Some Cons show ?thesis by simp
    next
      case (Panicked p)
      with Some Cons.prems show ?thesis by simp
    next
      case (Selected s n tt)
      from Cons.prems(2,3) Some have "tot + length sectors \<le> AddressedSectorsMax cfg"
        by (auto dest!: spec [of _ loc] spec [of _ sectors])
      from selectLocation_whole [OF Selected this] have s: "s = sectors" and n: "n = length sectors"
        by simp_all
      from s Some have same: "td(loc \<mapsto> s) = td"
        by (simp add: map_upd_triv)
      let ?terms1 = "terms @ [\<lparr>Deadline = Deadline loc, Partition = Partition loc, Sectors = tt\<rparr>]"
      show ?thesis
      proof (cases "tot + n \<ge> AddressedSectorsMax cfg \<or> tot + n \<ge> TerminateBatchMax cfg
          \<or> length ?terms1 \<ge> DeclarationsMax cfg")
        case True
        with Cons.prems(1) Some Selected same show ?thesis
          by (auto simp: Let_def split: if_splits)
      next
        case False
        with Cons.prems(1) Some Selected same
        have "selectLoop cfg api m dl locs td (tot + n) ?terms1 = Inr (td', tot', terms')"
          by (auto simp: Let_def split: if_splits)
        moreover from False have "tot + n = 0 \<or> tot + n < TerminateBatchMax cfg"
          by simp
        ultimately show ?thesis
          using Cons.IH Cons.prems(2) by blast
      qed
    qed
  qed
qed

lemma processBatch_error_keeps_todo:
  assumes "processBatch cfg api order b notif after = Inr (Inl e, b')"
    and "\<forall>loc sectors. todo b loc = Some sectors \<longrightarrow>
      length sectors \<le> AddressedSectorsMax cfg
      \<and> length sectors + TerminateBatchMax cfg \<le> AddressedSectorsMax cfg + 1"
  shows "todo b' = todo b"
proof (cases "StateMinerProvingDeadline api (maddr b)")
  case (Inl err)
  with assms(1) show ?thesis
    by (simp add: processBatch_def)
next
  case (Inr dl)
  show ?thesis
  proof (cases "selectLoop cfg api (maddr b) dl order (todo b) 0 []")
    case (Inl p)
    with Inr assms(1) show ?thesis
      by (simp add: processBatch_def)
  next
    case sel: (Inr res)
    obtain td tot terms where res: "res = (td, tot, terms)"
      by (cases res) auto
    from sel res have "selectLoop cfg api (maddr b) dl order (todo b) 0 [] = Inr (td, tot, terms)"
      by simp
    from selectLoop_todo_unchanged [OF this assms(2)] have td: "td = todo b"
      by simp
    with Inr sel res assms(1)
    have "sendBatch api b \<lparr>Terminations = terms\<rparr> = (Inl e, b')"
      by (auto simp: processBatch_def Let_def split: if_splits)
    from sendBatch_error [OF this] show ?thesis by simp
  qed
qed

lemma sendBatch_failure:
  assumes "MarshalCBOR api params = Inl e
     \<or> (\<exists>enc. MarshalCBOR api params = Inr enc
          \<and> (StateMinerInfo api (maddr b) = Inl e
              \<or> (\<exists>mi. StateMinerInfo api (maddr b) = Inr mi
                   \<and> (addrSel api mi = Inl e
                       \<or> (\<exists>from. addrSel api mi = Inr from
                            \<and> MessagerSendMsg api from (maddr b) enc = Inl e)))))"
  shows "\<exists>err b'. sendBatch api b params = (Inl err, b')
     \<and> todo b' = todo b \<and> waiting b' = waiting b \<and> chans b' = chans b"
  using assms by (auto simp: sendBatch_def Let_def)

text \<open>
  The general form of scenario S4: one pending location with more sectors than a message
  may address, all of them live, and collaborators that succeed. The batch declares the
  first \<open>AddressedSectorsMax\<close> sectors, and \<open>todo\<close> is empty afterwards: the remainder
  is deleted with the location.
\<close>

lemma single_location_cap:
  fixes api :: "'a Collaborators_scheme"
  assumes dl: "StateMinerProvingDeadline api (maddr b) = Inr dl"
    and P: "WPoStPeriodDeadlines cfg \<noteq> 0"
    and safe: "\<not> challenged (WPoStPeriodDeadlines cfg) loc dl"
    and td: "todo b = [loc \<mapsto> sectors]"
    and ps: "StateMinerPartitions api (maddr b) (Deadline loc) = Inr ps"
    and inrange: "unat (Partition loc) < length ps"
    and live: "set sectors \<subseteq> set (LiveSectors (ps ! unat (Partition loc)))"
    and over: "AddressedSectorsMax cfg < length sectors"
    and gate: "\<not> (notif \<and> AddressedSectorsMax cfg < TerminateBatchMax cfg)"
      "\<not> (after \<and> AddressedSectorsMax cfg < TerminateBatchMin cfg)"
    and decl: "params = \<lparr>Terminations = [\<lparr>Deadline = Deadline loc, Partition = Partition loc,
        Sectors = take (AddressedSectorsMax cfg) sectors\<rparr>]\<rparr>"
    and enc: "MarshalCBOR api params = Inr enc"
    and mi: "StateMinerInfo api (maddr b) = Inr mi"
    and sel: "addrSel api mi = Inr from"
    and send: "MessagerSendMsg api from (maddr b) enc = Inr mcid"
  shows "\<exists>b'. processBatch cfg api [loc] b notif after = Inr (Inr mcid, b')
     \<and> submitted b b' = [(from, params)] \<and> todo b' = Map.empty
     \<and> (\<forall>sn. waiting b' sn
           = (if sn \<in> set (take (AddressedSectorsMax cfg) sectors) then None else waiting b sn))"
proof -
  let ?cap = "AddressedSectorsMax cfg"
  let ?rest = "filter (\<lambda>i. i \<notin> set (take ?cap sectors)) sectors"
  from live have all: "filter (\<lambda>i. i \<in> set (LiveSectors (ps ! unat (Partition loc)))) sectors = sectors"
    by (auto simp: filter_id_conv)
  from over have ne: "sectors \<noteq> []" by auto
  have one: "selectLocation cfg api (maddr b) dl 0 loc sectors
      = Selected ?rest ?cap (take ?cap sectors)"
    using P safe ps inrange over ne all
    by (simp add: selectLocation_def Count_def Copy_def IntersectBitField_def Slice_def
        SubtractBitField_def Let_def)
  have loop: "selectLoop cfg api (maddr b) dl [loc] (todo b) 0 []
      = Inr ([loc \<mapsto> ?rest], ?cap, Terminations params)"
    using one by (simp add: td decl Let_def)
  have loc: "\<lparr>Deadline = Deadline loc, Partition = Partition loc\<rparr> = loc"
    by (cases loc) simp
  obtain e b' where fin: "finishBatch (Terminations params) mcid
      (b\<lparr>todo := [loc \<mapsto> ?rest], sent := sent b @ [(from, params)]\<rparr>) = (e, b')"
    by (cases "finishBatch (Terminations params) mcid
      (b\<lparr>todo := [loc \<mapsto> ?rest], sent := sent b @ [(from, params)]\<rparr>)") auto
  from finishBatch_no_error [OF fin] have e: "e = None" .
  from finishBatch_sent [OF fin] have sent: "sent b' = sent b @ [(from, params)]"
    by simp
  have todo: "todo b' = Map.empty"
  proof
    fix l
    from finishBatch_todo [OF fin, of l] show "todo b' l = None"
      by (cases l; cases loc) (auto simp: decl)
  qed
  have waiters: "\<forall>sn. waiting b' sn
      = (if sn \<in> set (take ?cap sectors) then None else waiting b sn)"
    using finishBatch_waiting [OF fin] by (simp add: decl)
  have "processBatch cfg api [loc] b notif after = Inr (Inr mcid, b')"
    using dl loop gate enc mi sel send fin e
    by (auto simp: processBatch_def sendBatch_def Let_def decl
        simp del: selectLoop.simps finishBatch.simps)
  with sent todo waiters show ?thesis
    by (simp add: submitted_def)
qed

text \<open>
  Scenario S4 itself: the message has exactly the first 100 of the 150 sectors; afterwards
  \<open>todo\<close> is empty, and the waiters of the other 50 sectors are still in \<open>waiting\<close>.
\<close>

lemma S4_remainder_dropped:
  "\<exists>b'. processBatch S4Config S4Api [exampleLoc] S4Batcher True False = Inr (Inr ''msg-1'', b')
     \<and> submitted S4Batcher b'
         = [(IDAddress 101,
             \<lparr>Terminations = [\<lparr>Deadline = 10, Partition = 0, Sectors = [0..<100]\<rparr>]\<rparr>)]
     \<and> todo b' = Map.empty
     \<and> (\<forall>sn. waiting b' sn = (if 100 \<le> sn \<and> sn < 150 then Some [sn] else None))"
proof -
  have "\<exists>b'. processBatch S4Config S4Api [exampleLoc] S4Batcher True False = Inr (Inr ''msg-1'', b')
     \<and> submitted S4Batcher b'
         = [(IDAddress 101,
             \<lparr>Terminations = [\<lparr>Deadline = Deadline exampleLoc, Partition = Partition exampleLoc,
                Sectors = take (AddressedSectorsMax S4Config) [0..<150]\<rparr>]\<rparr>)]
     \<and> todo b' = Map.empty
     \<and> (\<forall>sn. waiting b' sn
           = (if sn \<in> set (take (AddressedSectorsMax S4Config) [0..<150]) then None
              else waiting S4Batcher sn))"
  proof (rule single_location_cap [where dl = "\<lparr>Index = 0\<rparr>" and ps = "[\<lparr>LiveSectors = [0..<150]\<rparr>]"
        and sectors = "[0..<150]" and enc = "[]"
        and mi = "\<lparr>Owner = IDAddress 100, Worker = IDAddress 101\<rparr>"])
    show "\<not> challenged (WPoStPeriodDeadlines S4Config) exampleLoc \<lparr>Index = 0\<rparr>"
      by (simp add: challenged_def inNextDeadline_def inPreviousDeadline_def S4Config_def exampleLoc_def)
  qed (simp_all add: S4Config_def S4Api_def S4Batcher_def exampleApi_def exampleLoc_def)
  then obtain b' where
    run: "processBatch S4Config S4Api [exampleLoc] S4Batcher True False = Inr (Inr ''msg-1'', b')"
    and sub: "submitted S4Batcher b'
         = [(IDAddress 101,
             \<lparr>Terminations = [\<lparr>Deadline = Deadline exampleLoc, Partition = Partition exampleLoc,
                Sectors = take (AddressedSectorsMax S4Config) [0..<150]\<rparr>]\<rparr>)]"
    and todo: "todo b' = Map.empty"
    and w: "\<forall>sn. waiting b' sn
           = (if sn \<in> set (take (AddressedSectorsMax S4Config) [0..<150]) then None
              else waiting S4Batcher sn)"
    by blast
  from w have "\<forall>sn. waiting b' sn = (if 100 \<le> sn \<and> sn < 150 then Some [sn] else None)"
    by (auto simp: S4Config_def S4Batcher_def)
  with run sub todo show ?thesis
    by (auto simp: S4Config_def exampleLoc_def)
qed

lemmas cap_defs = cappedConfig_def failingSendApi_def afterFirstBatch_def afterFailedSend_def

text \<open>
  C1. The cap of scenario S4 scaled down: three sectors are pending in one location and a
  message addresses at most two. The notify event submits the first two bits and
  subtracts them from the pending bitfield, but the submission then deletes the location
  from \<open>todo\<close>, and with it the remainder: \<open>todo\<close> is empty afterwards, the waiter of
  sector 3 is still in \<open>waiting\<close> and has been sent nothing, and a forced batch after it
  finds nothing to submit.
\<close>

theorem cap_remainder_dropped:
  "runIteration cappedConfig exampleApi [exampleLoc] exampleBatcher Notify
     = Inr (Inr ''msg-1'', afterFirstBatch)
   \<and> todo exampleBatcher exampleLoc = Some [1, 2, 3]
   \<and> submitted exampleBatcher afterFirstBatch
       = [(IDAddress 101, \<lparr>Terminations = [\<lparr>Deadline = 10, Partition = 0, Sectors = [1, 2]\<rparr>]\<rparr>)]
   \<and> todo afterFirstBatch = Map.empty
   \<and> waiting afterFirstBatch 3 = Some [2]
   \<and> chans afterFirstBatch 2 = []
   \<and> runIteration cappedConfig exampleApi [] afterFirstBatch Force = Inr (Inr '''', afterFirstBatch)
   \<and> runIteration cappedConfig exampleApi [exampleLoc] afterFirstBatch Force = Inr (Inr '''', afterFirstBatch)"
  by (simp add: eval_defs cap_defs)

text \<open>
  C2. With the same pending sectors and the same cap, the message submitter rejects the
  message. processBatch returns the error and no waiter is notified, but the pending
  bitfield of the location has lost the two sectors that the selection had cut off:
  \<open>todo\<close> is not as it was before the call.
\<close>

theorem failed_send_drops_sectors:
  "runIteration cappedConfig failingSendApi [exampleLoc] exampleBatcher Notify
     = Inr (Inl (Errorf ''sending message failed'' (Err ''send failed'')), afterFailedSend)
   \<and> todo exampleBatcher exampleLoc = Some [1, 2, 3]
   \<and> todo afterFailedSend exampleLoc = Some [3]
   \<and> waiting afterFailedSend = waiting exampleBatcher
   \<and> chans afterFailedSend = chans exampleBatcher"
  by (simp add: eval_defs cap_defs)

subsection \<open>The bitfields of the batcher are valid\<close>

lemma valid_bf_New: "valid_bf bitfield_New"
  by (simp add: valid_bf_def bitfield_New_def)

lemma SetBit_set: "set (SetBit bf i) = insert i (set bf)"
  by (auto simp: SetBit_def set_insort_key)

lemma valid_bf_SetBit: "valid_bf bf \<Longrightarrow> valid_bf (SetBit bf i)"
  by (simp add: valid_bf_def SetBit_def sorted_insort distinct_insort)

lemma IntersectBitField_valid:
  "valid_bf b \<Longrightarrow> \<exists>c. IntersectBitField a b = Inr c \<and> valid_bf c \<and> set c = set a \<inter> set b"
  by (auto simp: IntersectBitField_def valid_bf_def sorted_wrt_filter)

lemma IntersectBitField_commute:
  assumes "valid_bf a" and "valid_bf b"
  shows "IntersectBitField a b = IntersectBitField b a"
proof -
  have "filter (\<lambda>i. i \<in> set a) b = filter (\<lambda>i. i \<in> set b) a"
    using assms
    by (intro sorted_distinct_set_unique) (auto simp: valid_bf_def sorted_wrt_filter)
  then show ?thesis
    by (simp add: IntersectBitField_def)
qed

lemma SubtractBitField_valid:
  "valid_bf a \<Longrightarrow> \<exists>c. SubtractBitField a b = Inr c \<and> valid_bf c \<and> set c = set a - set b"
  by (auto simp: SubtractBitField_def valid_bf_def sorted_wrt_filter)

lemma Slice_valid:
  "valid_bf bf \<Longrightarrow> Slice bf start cnt = Inr c \<Longrightarrow> valid_bf c \<and> length c = cnt \<and> set c \<subseteq> set bf"
  by (auto simp: Slice_def valid_bf_def distinct_take distinct_drop
      split: if_splits dest: in_set_takeD in_set_dropD)

lemma selectLocation_valid:
  assumes "selectLocation cfg api m dl tot loc sectors = Selected s n tt" and "valid_bf sectors"
  shows "valid_bf s \<and> valid_bf tt"
  using assms
  by (auto simp: selectLocation_def Count_def Copy_def IntersectBitField_def Slice_def
      SubtractBitField_def Let_def valid_bf_def sorted_wrt_filter distinct_take
      split: if_splits sum.splits)

lemma selectLoop_valid:
  assumes "selectLoop cfg api m dl locs td tot terms = Inr (td', tot', terms')"
    and "\<forall>loc bf. td loc = Some bf \<longrightarrow> valid_bf bf"
  shows "\<forall>loc bf. td' loc = Some bf \<longrightarrow> valid_bf bf"
proof (rule selectLoop_invariant [OF assms(1),
      where I = "\<lambda>td tot terms. \<forall>loc bf. td loc = Some bf \<longrightarrow> valid_bf bf"])
  show "\<forall>loc bf. td loc = Some bf \<longrightarrow> valid_bf bf" by (rule assms(2))
next
  fix loc sectors s n tt and td :: "SectorLocation \<rightharpoonup> BitField" and tot :: nat
    and terms :: "TerminationDeclaration list"
  assume "\<forall>loc bf. td loc = Some bf \<longrightarrow> valid_bf bf" and "td loc = Some sectors"
    and "selectLocation cfg api m dl tot loc sectors = Selected s n tt"
  then show "\<forall>l bf. (td(loc \<mapsto> s)) l = Some bf \<longrightarrow> valid_bf bf"
    using selectLocation_valid [of cfg api m dl tot loc sectors s n tt] by auto
qed

lemma finishBatch_valid:
  assumes "finishBatch ts mcid b = (e, b')" and "\<forall>loc bf. todo b loc = Some bf \<longrightarrow> valid_bf bf"
  shows "\<forall>loc bf. todo b' loc = Some bf \<longrightarrow> valid_bf bf"
  using finishBatch_todo [OF assms(1)] assms(2) by (auto split: if_splits)

lemma processBatch_valid:
  assumes "processBatch cfg api order b notif after = Inr (r, b')"
    and "\<forall>loc bf. todo b loc = Some bf \<longrightarrow> valid_bf bf"
  shows "\<forall>loc bf. todo b' loc = Some bf \<longrightarrow> valid_bf bf"
proof (cases "StateMinerProvingDeadline api (maddr b)")
  case (Inl err)
  with assms show ?thesis
    by (simp add: processBatch_def)
next
  case (Inr dl)
  show ?thesis
  proof (cases "selectLoop cfg api (maddr b) dl order (todo b) 0 []")
    case (Inl p)
    with Inr assms(1) show ?thesis
      by (simp add: processBatch_def)
  next
    case sel: (Inr res)
    obtain td tot terms where res: "res = (td, tot, terms)"
      by (cases res) auto
    from sel res have "selectLoop cfg api (maddr b) dl order (todo b) 0 [] = Inr (td, tot, terms)"
      by simp
    from selectLoop_valid [OF this assms(2)] have td: "\<forall>loc bf. td loc = Some bf \<longrightarrow> valid_bf bf" .
    show ?thesis
    proof (cases "b' = b\<lparr>todo := td\<rparr>")
      case True
      with td show ?thesis by simp
    next
      case False
      with Inr sel res assms(1)
      have "sendBatch api (b\<lparr>todo := td\<rparr>) \<lparr>Terminations = terms\<rparr> = (r, b')"
        by (auto simp: processBatch_def Let_def split: if_splits)
      then have "todo b' = td \<or> (\<exists>mcid b1 e. todo b1 = td \<and> finishBatch terms mcid b1 = (e, b'))"
        by (auto simp: sendBatch_def Let_def split: sum.splits prod.splits option.splits)
      with td finishBatch_valid show ?thesis
        by (metis (no_types, lifting))
    qed
  qed
qed

lemma AddTermination_valid:
  assumes "AddTermination api b s = Inr (r, b')"
    and "\<forall>loc bf. todo b loc = Some bf \<longrightarrow> valid_bf bf"
  shows "\<forall>loc bf. todo b' loc = Some bf \<longrightarrow> valid_bf bf"
  using assms
  by (auto simp: AddTermination_def Let_def IsSet_def valid_bf_SetBit valid_bf_New
      split: sum.splits option.splits if_splits)

lemma reachable_todo_valid:
  "reachable b \<Longrightarrow> \<forall>loc bf. todo b loc = Some bf \<longrightarrow> valid_bf bf"
proof (induction rule: reachable.induct)
  case (new a)
  show ?case by (simp add: NewTerminationBatcher_def)
next
  case (add b api s r b')
  from AddTermination_valid [OF add.hyps(2) add.IH] show ?case .
next
  case (batch b cfg api order notif after res b')
  from processBatch_valid [OF batch.hyps(2) batch.IH] show ?case .
qed

end
